theory Spec2Isabelle
  imports Main "HOL-Library.AList"
begin

section \<open>The action layer of the Ask-a-Question form (AAQActions.es6.js)\<close>

text \<open>
  The module forwards form input to a dispatch bus and issues two AJAX requests. Its
  collaborators (the dispatcher, the draft store, jQuery's \<open>$.ajax\<close>, the browser console,
  the DOM and underscore's \<open>_.throttle\<close>) are not part of the file; each of them is a
  component of the state \<open>world\<close> below, and every function of the module is a function
  on that state. Asynchronous continuations (the \<open>.done\<close>/\<open>.fail\<close> callbacks and the throttle's
  timer) are separate functions, run by the event loop \<open>step\<close>.
\<close>

subsection \<open>JavaScript values\<close>

text \<open>
  The values that flow through the module are call arguments and parsed JSON bodies.
  An object is its list of own properties in insertion order. An array is its elements
  together with its named own properties: \<open>JSON.parse\<close> yields arrays without named
  properties, but the success handler may assign \<open>type\<close> to an entry that is an array.
  A number is a safe integer: an integer of magnitude below \<open>2\<^sup>5\<^sup>3\<close>, which a JavaScript
  number holds exactly and prints as its decimal digits (the ids the API sends are such).
  Numbers with a fraction or of larger magnitude are outside the model.
\<close>

typedef safe_integer = "{i :: int. - 9007199254740992 < i \<and> i < 9007199254740992}"
  morphisms int_of safe
  by (rule exI [of _ 0]) simp

datatype jsval =
    JUndefined
  | JNull
  | JBool bool
  | JNum safe_integer
  | JStr string
  | JArr "jsval list" "(string \<times> jsval) list"
  | JObj "(string \<times> jsval) list"

datatype js_error = TypeError

definition own :: "(string \<times> jsval) list \<Rightarrow> string \<Rightarrow> jsval" where
  \<comment> \<open>the value of an own property, \<open>undefined\<close> when there is none\<close>
  "own ps k = (case map_of ps k of None \<Rightarrow> JUndefined | Some v \<Rightarrow> v)"

definition has_own :: "(string \<times> jsval) list \<Rightarrow> string \<Rightarrow> bool" where
  "has_own ps k = (map_of ps k \<noteq> None)"

fun get_prop :: "jsval \<Rightarrow> string \<Rightarrow> js_error + jsval" where
  \<comment> \<open>\<open>v.k\<close> for the keys the module reads (\<open>documents\<close>, \<open>questions\<close>, \<open>id\<close>, \<open>product\<close>):
      none of them is an array index, \<open>length\<close> or a property of a built-in prototype,
      so the lookup is among the own properties; reading from \<open>undefined\<close> or \<open>null\<close> throws\<close>
  "get_prop JUndefined k = Inl TypeError"
| "get_prop JNull k = Inl TypeError"
| "get_prop (JObj ps) k = Inr (own ps k)"
| "get_prop (JArr es ps) k = Inr (own ps k)"
| "get_prop v k = Inr JUndefined"

fun set_prop :: "jsval \<Rightarrow> string \<Rightarrow> jsval \<Rightarrow> js_error + jsval" where
  \<comment> \<open>\<open>v.k = x\<close> for the keys the module writes (\<open>type\<close>, \<open>url\<close>, \<open>summary\<close>); the result is
      the object after the assignment. The file is an ES6 module, hence strict code:
      assigning a property of a primitive throws, as it does on \<open>undefined\<close> and \<open>null\<close>\<close>
  "set_prop (JObj ps) k x = Inr (JObj (AList.update k x ps))"
| "set_prop (JArr es ps) k x = Inr (JArr es (AList.update k x ps))"
| "set_prop v k x = Inl TypeError"

fun is_object :: "jsval \<Rightarrow> bool" where
  "is_object (JObj ps) = True"
| "is_object (JArr es ps) = True"
| "is_object v = False"

fun is_array :: "jsval \<Rightarrow> bool" where
  "is_array (JArr es ps) = True"
| "is_array v = False"

definition has_array :: "jsval \<Rightarrow> string \<Rightarrow> bool" where
  \<comment> \<open>\<open>v.k\<close> can be read and is an array\<close>
  "has_array v k = (case get_prop v k of Inl e \<Rightarrow> False | Inr x \<Rightarrow> is_array x)"




subsection \<open>Conversion to string, as a template literal does it\<close>

function show_nat :: "nat \<Rightarrow> string" where
  "show_nat n = (if n < 10 then [''0123456789'' ! n]
                 else show_nat (n div 10) @ [''0123456789'' ! (n mod 10)])"
  by pat_completeness auto
termination
  by (relation "measure id") auto

declare show_nat.simps [simp del]

definition show_int :: "int \<Rightarrow> string" where
  "show_int i = (if i < 0 then CHR ''-'' # show_nat (nat (- i)) else show_nat (nat i))"

fun join_strings :: "string list \<Rightarrow> string" where
  "join_strings [] = []"
| "join_strings [s] = s"
| "join_strings (s # ss) = s @ CHR '','' # join_strings ss"

fun sequence :: "(js_error + 'a) list \<Rightarrow> js_error + 'a list" where
  \<comment> \<open>left to right, stopping at the first throw\<close>
  "sequence [] = Inr []"
| "sequence (Inl e # rs) = Inl e"
| "sequence (Inr x # rs) = (case sequence rs of Inl e \<Rightarrow> Inl e | Inr xs \<Rightarrow> Inr (x # xs))"

fun ToString :: "jsval \<Rightarrow> js_error + string" where
  \<comment> \<open>\<open>`${v}`\<close>. A plain object prints as \<open>[object Object]\<close> through \<open>Object.prototype.toString\<close>;
      an own property \<open>toString\<close> (never callable in parsed JSON) hides it, \<open>valueOf\<close>
      does not yield a primitive, and the conversion throws. An array prints through
      \<open>join\<close>, where \<open>undefined\<close> and \<open>null\<close> elements print as the empty string\<close>
  "ToString JUndefined = Inr ''undefined''"
| "ToString JNull = Inr ''null''"
| "ToString (JBool b) = Inr (if b then ''true'' else ''false'')"
| "ToString (JNum i) = Inr (show_int (int_of i))"
| "ToString (JStr s) = Inr s"
| "ToString (JObj ps) =
     (if has_own ps ''toString'' then Inl TypeError else Inr ''[object Object]'')"
| "ToString (JArr es ps) =
     (if has_own ps ''toString'' then Inl TypeError
      else if has_own ps ''join'' then Inr ''[object Array]''
      else case sequence (map (\<lambda>e. if e = JUndefined \<or> e = JNull then Inr [] else ToString e) es)
           of Inl e \<Rightarrow> Inl e | Inr ss \<Rightarrow> Inr (join_strings ss))"

subsection \<open>Events, requests and the state of the page\<close>

text \<open>
  Modelled from the spec: the constant table \<open>actionTypes\<close> of AAQConstants.es6.js is not
  among the sources; the spec's data model lists its eight tags.
\<close>

datatype actionType =
    SET_PRODUCT | SET_TOPIC | SET_TITLE | SET_SUGGESTIONS | SET_CONTENT
  | QUESTION_SUBMIT_OPTIMISTIC | QUESTION_SUBMIT_SUCCESS | QUESTION_SUBMIT_FAILURE

text \<open>An event is the object literal handed to \<open>dispatch\<close>: its \<open>type\<close> and its other properties.\<close>

record event =
  etype :: actionType
  payload :: "(string \<times> jsval) list"

text \<open>The jqXHR object that jQuery passes to the callbacks.\<close>

record jqXHR =
  status :: nat
  statusText :: string

datatype logged = LStr string | LVal jsval | LXhr jqXHR | LArgs "logged list"

text \<open>
  A request is the settings object passed to \<open>$.ajax\<close>, the request header set in
  \<open>beforeSend\<close>, the pair of callbacks chained on the returned promise, and the time of
  the call.
\<close>

datatype callbacks = SuggestCallbacks | SubmitCallbacks

record request =
  sent_at :: nat
  ajax_type :: string
  url :: string
  data :: "(string \<times> jsval) list"
  headers :: "(string \<times> string) list"
  chained :: callbacks

text \<open>
  The state of the throttle around the suggestion search: the time of the last run of the
  wrapped function, and the pending trailing call (the due time of its timer and the
  arguments of the latest call).
\<close>

record throttle =
  previous :: "nat option"
  trailing :: "(nat \<times> jsval) option"

record world =
  clock :: nat  \<comment> \<open>milliseconds\<close>
  dispatched :: "event list"  \<comment> \<open>what AAQDispatcher has been handed, oldest first\<close>
  draft :: "(string \<times> jsval) list"  \<comment> \<open>the draft that \<open>QuestionEditStore.getQuestion()\<close> returns\<close>
  csrf_input :: "string option"  \<comment> \<open>the value of \<open>input[name=csrfmiddlewaretoken]\<close>, if the page has one\<close>
  console :: "logged list list"
  network :: "request list"  \<comment> \<open>the requests made, oldest first\<close>
  settled :: "nat list"  \<comment> \<open>positions in \<open>network\<close> of the requests already answered\<close>
  throttled :: throttle

text \<open>
  Modelled from the spec: AAQDispatcher.es6.js is not among the sources. The dispatch bus
  accepts event records and returns nothing to the caller (fire and forget).
\<close>

definition dispatch :: "event \<Rightarrow> world \<Rightarrow> world" where
  "dispatch e w = w\<lparr>dispatched := dispatched w @ [e]\<rparr>"

text \<open>
  Modelled from the spec: QuestionEditStore.es6.js is not among the sources.
  \<open>getQuestion()\<close> returns the current draft object.
\<close>

definition getQuestion :: "world \<Rightarrow> (string \<times> jsval) list" where
  "getQuestion w = draft w"

text \<open>
  Modelled from the spec: jQuery is not among the sources. \<open>$.ajax\<close> starts the request
  and returns at once; the callbacks chained on its result run in a later turn of the
  event loop, when the response has arrived.
\<close>

definition ajax ::
  "string \<Rightarrow> string \<Rightarrow> (string \<times> jsval) list \<Rightarrow> (string \<times> string) list \<Rightarrow> callbacks
     \<Rightarrow> world \<Rightarrow> world" where
  "ajax ty u d hs cb w =
     w\<lparr>network := network w @
         [\<lparr>sent_at = clock w, ajax_type = ty, url = u, data = d, headers = hs, chained = cb\<rparr>]\<rparr>"

definition console_log :: "logged list \<Rightarrow> world \<Rightarrow> world" where
  "console_log xs w = w\<lparr>console := console w @ [xs]\<rparr>"

subsection \<open>The forwarding actions\<close>

definition setProduct :: "jsval \<Rightarrow> world \<Rightarrow> world" where
  "setProduct product = dispatch \<lparr>etype = SET_PRODUCT, payload = [(''product'', product)]\<rparr>"

definition setTopic :: "jsval \<Rightarrow> world \<Rightarrow> world" where
  "setTopic topic = dispatch \<lparr>etype = SET_TOPIC, payload = [(''topic'', topic)]\<rparr>"

definition setSuggestions :: "jsval \<Rightarrow> world \<Rightarrow> world" where
  "setSuggestions suggestions =
     dispatch \<lparr>etype = SET_SUGGESTIONS, payload = [(''suggestions'', suggestions)]\<rparr>"

definition setContent :: "jsval \<Rightarrow> world \<Rightarrow> world" where
  "setContent content = dispatch \<lparr>etype = SET_CONTENT, payload = [(''content'', content)]\<rparr>"

subsection \<open>The suggestion search\<close>

definition searchSuggestions :: "jsval \<Rightarrow> world \<Rightarrow> world" where
  \<comment> \<open>the function declared at line 29, before line 59 rebinds its name\<close>
  "searchSuggestions title w =
     ajax ''GET'' ''/api/2/search/suggest''
       [(''q'', title), (''max_questions'', JNum (safe 2)), (''max_documents'', JNum (safe 2)),
        (''product'', own (getQuestion w) ''product'')]
       [] SuggestCallbacks w"

fun array_map ::
  "(jsval \<Rightarrow> jsval \<times> js_error option) \<Rightarrow> jsval list \<Rightarrow> jsval list \<times> js_error option" where
  \<comment> \<open>\<open>Array.prototype.map\<close> with a callback that changes its argument in place and returns
      it: the elements after the loop, and the error if the callback threw (the elements
      after the throwing one are not visited)\<close>
  "array_map f [] = ([], None)"
| "array_map f (x # xs) =
     (case f x of
        (x', Some e) \<Rightarrow> (x' # xs, Some e)
      | (x', None) \<Rightarrow> (case array_map f xs of (xs', r) \<Rightarrow> (x' # xs', r)))"

definition tag_document :: "jsval \<Rightarrow> jsval \<times> js_error option" where
  \<comment> \<open>the callback of lines 42-45: the entry after the call, and the error if it threw\<close>
  "tag_document document =
     (case set_prop document ''type'' (JStr ''document'') of
        Inl e \<Rightarrow> (document, Some e)
      | Inr d \<Rightarrow> (d, None))"

definition tag_question :: "jsval \<Rightarrow> jsval \<times> js_error option" where
  \<comment> \<open>the callback of lines 46-51\<close>
  "tag_question question =
     (case set_prop question ''type'' (JStr ''question'') of
        Inl e \<Rightarrow> (question, Some e)
      | Inr q1 \<Rightarrow>
         (case get_prop q1 ''id'' of
            Inl e \<Rightarrow> (q1, Some e)
          | Inr i \<Rightarrow>
             (case ToString i of
                Inl e \<Rightarrow> (q1, Some e)
              | Inr s \<Rightarrow>
                 (case set_prop q1 ''url'' (JStr (''/questions/'' @ s)) of
                    Inl e \<Rightarrow> (q1, Some e)
                  | Inr q2 \<Rightarrow>
                     (case set_prop q2 ''summary'' (JStr []) of
                        Inl e \<Rightarrow> (q2, Some e)
                      | Inr q3 \<Rightarrow> (q3, None))))))"

fun call_map ::
  "jsval \<Rightarrow> (jsval \<Rightarrow> jsval \<times> js_error option) \<Rightarrow> jsval \<times> js_error option" where
  \<comment> \<open>\<open>v.map(f)\<close>: \<open>v\<close> after the call, and the error if it threw. Only an array has a
      callable \<open>map\<close> (no value of parsed JSON is callable)\<close>
  "call_map (JArr es ps) f =
     (if has_own ps ''map'' then (JArr es ps, Some TypeError)
      else case array_map f es of (es', r) \<Rightarrow> (JArr es' ps, r))"
| "call_map v f = (v, Some TypeError)"

fun elements :: "jsval \<Rightarrow> jsval list" where
  "elements (JArr es ps) = es"
| "elements v = []"

fun store_prop :: "jsval \<Rightarrow> string \<Rightarrow> jsval \<Rightarrow> jsval" where
  \<comment> \<open>not an assignment of the source: the value of an object after the value of its
      own property \<open>k\<close> has been changed in place into \<open>x\<close>\<close>
  "store_prop (JObj ps) k x = JObj (if has_own ps k then AList.update k x ps else ps)"
| "store_prop (JArr es ps) k x = JArr es (if has_own ps k then AList.update k x ps else ps)"
| "store_prop v k x = v"

definition suggest_done :: "jsval \<Rightarrow> world \<Rightarrow> js_error option \<times> jsval \<times> world" where
  \<comment> \<open>the \<open>.done\<close> callback of lines 40-54: the error thrown if any, the response object
      after the call, and the state after the call\<close>
  "suggest_done response w =
     (let w1 = console_log [LStr ''suggest:'', LVal response] w in
      case get_prop response ''documents'' of
        Inl e \<Rightarrow> (Some e, response, w1)
      | Inr documents \<Rightarrow>
         (case call_map documents tag_document of
            (documents', Some e) \<Rightarrow> (Some e, store_prop response ''documents'' documents', w1)
          | (docSuggestions, None) \<Rightarrow>
             (let response1 = store_prop response ''documents'' docSuggestions in
              case get_prop response1 ''questions'' of
                Inl e \<Rightarrow> (Some e, response1, w1)
              | Inr questions \<Rightarrow>
                 (case call_map questions tag_question of
                    (questions', Some e) \<Rightarrow>
                      (Some e, store_prop response1 ''questions'' questions', w1)
                  | (questionSuggestions, None) \<Rightarrow>
                     (let suggestions =
                            JArr (elements docSuggestions @ elements questionSuggestions) []
                      in (None, store_prop response1 ''questions'' questionSuggestions,
                          setSuggestions suggestions w1))))))"

definition suggest_fail :: "jqXHR \<Rightarrow> world \<Rightarrow> world" where
  \<comment> \<open>the \<open>.fail\<close> callback of lines 55-57\<close>
  "suggest_fail err w = console_log [LStr ''suggest error:'', LXhr err] w"

subsection \<open>The throttle of line 59\<close>

text \<open>
  Modelled from the spec: underscore's \<open>_.throttle\<close> is not among the sources. The spec
  gives it the standard throttle semantics: the first call in a window runs the wrapped
  function immediately; a call within the window of the last run does not run it, but is
  remembered (the latest arguments win) for one trailing run when the window is over.
  \<open>throttle_call\<close> is the wrapper that \<open>_.throttle(f, wait)\<close> returns, \<open>throttle_later\<close> the
  callback of its timer.
\<close>

definition throttle_call ::
  "(jsval \<Rightarrow> world \<Rightarrow> world) \<Rightarrow> nat \<Rightarrow> jsval \<Rightarrow> world \<Rightarrow> world" where
  "throttle_call f wait a w =
     (case previous (throttled w) of
        None \<Rightarrow> f a (w\<lparr>throttled := \<lparr>previous = Some (clock w), trailing = None\<rparr>\<rparr>)
      | Some p \<Rightarrow>
         if p + wait \<le> clock w
         then f a (w\<lparr>throttled := \<lparr>previous = Some (clock w), trailing = None\<rparr>\<rparr>)
         else w\<lparr>throttled := \<lparr>previous = Some p, trailing =
                  Some (case trailing (throttled w) of
                          None \<Rightarrow> (p + wait, a)
                        | Some (due, b) \<Rightarrow> (due, a))\<rparr>\<rparr>)"

definition throttle_later :: "(jsval \<Rightarrow> world \<Rightarrow> world) \<Rightarrow> world \<Rightarrow> world" where
  "throttle_later f w =
     (case trailing (throttled w) of
        None \<Rightarrow> w
      | Some (due, a) \<Rightarrow> f a (w\<lparr>throttled := \<lparr>previous = Some (clock w), trailing = None\<rparr>\<rparr>))"

definition searchSuggestions_throttled :: "jsval \<Rightarrow> world \<Rightarrow> world" where
  \<comment> \<open>what the name \<open>searchSuggestions\<close> is bound to after line 59\<close>
  "searchSuggestions_throttled = throttle_call searchSuggestions 500"

definition setTitle :: "jsval \<Rightarrow> world \<Rightarrow> world" where
  "setTitle title w =
     searchSuggestions_throttled title
       (dispatch \<lparr>etype = SET_TITLE, payload = [(''title'', title)]\<rparr> w)"

subsection \<open>Submitting the question\<close>

definition submitQuestion :: "world \<Rightarrow> js_error option \<times> world" where
  \<comment> \<open>\<open>beforeSend\<close> runs inside \<open>$.ajax\<close>, before the request is sent: without the CSRF
      input \<open>querySelector\<close> returns \<open>null\<close>, reading its \<open>value\<close> throws, and the call ends
      there\<close>
  "submitQuestion w =
     (let w1 = dispatch \<lparr>etype = QUESTION_SUBMIT_OPTIMISTIC, payload = []\<rparr> w;
          questionData = getQuestion w1
      in case csrf_input w1 of
           None \<Rightarrow> (Some TypeError, w1)
         | Some csrf \<Rightarrow>
             (None, ajax ''POST'' ''/api/2/question/'' questionData [(''X-CSRFToken'', csrf)]
                      SubmitCallbacks w1))"

definition submit_done :: "jsval \<Rightarrow> string \<Rightarrow> jqXHR \<Rightarrow> world \<Rightarrow> world" where
  \<comment> \<open>the \<open>.done\<close> callback of lines 89-94, with jQuery's three arguments\<close>
  "submit_done response textStatus xhr w =
     dispatch \<lparr>etype = QUESTION_SUBMIT_SUCCESS, payload = []\<rparr>
       (console_log [LStr ''done'', LArgs [LVal response, LStr textStatus, LXhr xhr]] w)"

definition submit_fail :: "jqXHR \<Rightarrow> world \<Rightarrow> world" where
  \<comment> \<open>the \<open>.fail\<close> callback of lines 95-100\<close>
  "submit_fail err w =
     dispatch \<lparr>etype = QUESTION_SUBMIT_FAILURE, payload = [(''error'', JStr (statusText err))]\<rparr> w"

subsection \<open>The event loop\<close>

text \<open>
  What can happen to the page, one turn at a time: time passes, the owner of the draft
  changes it, the user interface calls an exported action, the throttle's timer runs
  (not before it is due), or the response to a request that is still open arrives.
  A turn that cannot happen in the current state is \<open>None\<close>. An error thrown in a turn
  ends the turn; what the turn did before stays done.
\<close>

datatype response = Success jsval string jqXHR | Failure jqXHR string string

datatype turn =
    Wait nat
  | StoreChange "(string \<times> jsval) list"
  | SetProduct jsval
  | SetTopic jsval
  | SetTitle jsval
  | SetSuggestions jsval
  | SetContent jsval
  | SubmitQuestion
  | TimerFires
  | Respond nat response

fun deliver :: "callbacks \<Rightarrow> response \<Rightarrow> world \<Rightarrow> world" where
  "deliver SuggestCallbacks (Success body textStatus xhr) w = snd (snd (suggest_done body w))"
| "deliver SuggestCallbacks (Failure xhr textStatus errorThrown) w = suggest_fail xhr w"
| "deliver SubmitCallbacks (Success body textStatus xhr) w = submit_done body textStatus xhr w"
| "deliver SubmitCallbacks (Failure xhr textStatus errorThrown) w = submit_fail xhr w"

fun step :: "turn \<Rightarrow> world \<Rightarrow> world option" where
  "step (Wait n) w = Some (w\<lparr>clock := clock w + n\<rparr>)"
| "step (StoreChange q) w = Some (w\<lparr>draft := q\<rparr>)"
| "step (SetProduct product) w = Some (setProduct product w)"
| "step (SetTopic topic) w = Some (setTopic topic w)"
| "step (SetTitle title) w = Some (setTitle title w)"
| "step (SetSuggestions suggestions) w = Some (setSuggestions suggestions w)"
| "step (SetContent content) w = Some (setContent content w)"
| "step SubmitQuestion w = Some (snd (submitQuestion w))"
| "step TimerFires w =
     (case trailing (throttled w) of
        None \<Rightarrow> None
      | Some (due, a) \<Rightarrow>
          if due \<le> clock w then Some (throttle_later searchSuggestions w) else None)"
| "step (Respond i r) w =
     (if i < length (network w) \<and> i \<notin> set (settled w)
      then Some (deliver (chained (network w ! i)) r (w\<lparr>settled := i # settled w\<rparr>))
      else None)"

fun run :: "turn list \<Rightarrow> world \<Rightarrow> world option" where
  "run [] w = Some w"
| "run (t # ts) w = (case step t w of None \<Rightarrow> None | Some w' \<Rightarrow> run ts w')"

definition page :: "(string \<times> jsval) list \<Rightarrow> string option \<Rightarrow> world" where
  \<comment> \<open>the page when the module has just been loaded\<close>
  "page q csrf =
     \<lparr>clock = 0, dispatched = [], draft = q, csrf_input = csrf, console = [],
      network = [], settled = [], throttled = \<lparr>previous = None, trailing = None\<rparr>\<rparr>"

subsection \<open>When the suggestion requests were sent\<close>

definition fires :: "world \<Rightarrow> nat list" where
  \<comment> \<open>the times of the suggestion requests made so far, oldest first\<close>
  "fires w = map sent_at (filter (\<lambda>r. chained r = SuggestCallbacks) (network w))"

fun spaced :: "nat \<Rightarrow> nat list \<Rightarrow> bool" where
  \<comment> \<open>each time is at least \<open>d\<close> after the one before it\<close>
  "spaced d [] = True"
| "spaced d [a] = True"
| "spaced d (a # b # xs) = (a + d \<le> b \<and> spaced d (b # xs))"

definition throttle_inv :: "world \<Rightarrow> bool" where
  \<comment> \<open>what the throttle's state knows about the requests sent: \<open>previous\<close> is the time of the
      last one, it is not in the future, and a pending timer is due one window after it\<close>
  "throttle_inv w =
     (spaced 500 (fires w) \<and>
      (case previous (throttled w) of
         None \<Rightarrow> fires w = [] \<and> trailing (throttled w) = None
       | Some p \<Rightarrow>
           fires w \<noteq> [] \<and> last (fires w) = p \<and> p \<le> clock w \<and>
           (case trailing (throttled w) of None \<Rightarrow> True | Some (due, a) \<Rightarrow> due = p + 500)))"

section \<open>Properties\<close>

subsection \<open>What the collaborators change\<close>

lemma dispatch_fields:
  "dispatched (dispatch e w) = dispatched w @ [e]"
  "draft (dispatch e w) = draft w"
  "network (dispatch e w) = network w"
  "clock (dispatch e w) = clock w"
  "throttled (dispatch e w) = throttled w"
  "settled (dispatch e w) = settled w"
  "csrf_input (dispatch e w) = csrf_input w"
  "console (dispatch e w) = console w"
  by (simp_all add: dispatch_def)

lemma console_log_fields:
  "dispatched (console_log xs w) = dispatched w"
  "draft (console_log xs w) = draft w"
  "network (console_log xs w) = network w"
  "clock (console_log xs w) = clock w"
  "throttled (console_log xs w) = throttled w"
  "settled (console_log xs w) = settled w"
  "csrf_input (console_log xs w) = csrf_input w"
  "console (console_log xs w) = console w @ [xs]"
  by (simp_all add: console_log_def)

lemma ajax_fields:
  "dispatched (ajax ty u d hs cb w) = dispatched w"
  "draft (ajax ty u d hs cb w) = draft w"
  "network (ajax ty u d hs cb w) =
     network w @ [\<lparr>sent_at = clock w, ajax_type = ty, url = u, data = d, headers = hs, chained = cb\<rparr>]"
  "clock (ajax ty u d hs cb w) = clock w"
  "throttled (ajax ty u d hs cb w) = throttled w"
  "settled (ajax ty u d hs cb w) = settled w"
  "csrf_input (ajax ty u d hs cb w) = csrf_input w"
  "console (ajax ty u d hs cb w) = console w"
  by (simp_all add: ajax_def)

lemma searchSuggestions_fields:
  "dispatched (searchSuggestions title w) = dispatched w"
  "draft (searchSuggestions title w) = draft w"
  "clock (searchSuggestions title w) = clock w"
  "throttled (searchSuggestions title w) = throttled w"
  "settled (searchSuggestions title w) = settled w"
  by (simp_all add: searchSuggestions_def ajax_fields)

subsection \<open>The forwarding actions\<close>

text \<open>
  C7. For every payload, \<open>setProduct\<close>, \<open>setTopic\<close> and \<open>setContent\<close> each hand the dispatcher
  exactly one event, of the tag \<open>SET_PRODUCT\<close>, \<open>SET_TOPIC\<close>, \<open>SET_CONTENT\<close> and carrying the
  payload under the key \<open>product\<close>, \<open>topic\<close>, \<open>content\<close>. The payload is not inspected, the
  call cannot throw, and nothing else of the state changes.
\<close>

theorem forwarding_actions_post_one_event:
  "setProduct product w =
     w\<lparr>dispatched := dispatched w @ [\<lparr>etype = SET_PRODUCT, payload = [(''product'', product)]\<rparr>]\<rparr>
   \<and> setTopic topic w =
     w\<lparr>dispatched := dispatched w @ [\<lparr>etype = SET_TOPIC, payload = [(''topic'', topic)]\<rparr>]\<rparr>
   \<and> setContent content w =
     w\<lparr>dispatched := dispatched w @ [\<lparr>etype = SET_CONTENT, payload = [(''content'', content)]\<rparr>]\<rparr>"
  by (simp add: setProduct_def setTopic_def setContent_def dispatch_def)

subsection \<open>A failed suggestion search\<close>

text \<open>
  C6. When the suggestion request fails, the \<open>.fail\<close> callback writes one line to the
  console and does nothing else: the state is otherwise the same, so no event at all
  reaches the dispatcher, whatever the jqXHR, status and error are.
\<close>

theorem suggest_failure_only_logs:
  "suggest_fail err w = w\<lparr>console := console w @ [[LStr ''suggest error:'', LXhr err]]\<rparr>
   \<and> dispatched (suggest_fail err w) = dispatched w
   \<and> dispatched (deliver SuggestCallbacks (Failure err textStatus errorThrown) w) = dispatched w"
  by (simp add: suggest_fail_def console_log_def)

subsection \<open>The draft is only read\<close>

lemma throttle_call_draft:
  "(\<And>a v. draft (f a v) = draft v) \<Longrightarrow> draft (throttle_call f wait a w) = draft w"
  by (simp add: throttle_call_def split: option.split)

lemma throttle_later_draft:
  "(\<And>a v. draft (f a v) = draft v) \<Longrightarrow> draft (throttle_later f w) = draft w"
  by (simp add: throttle_later_def split: option.split prod.split)

lemma suggest_done_draft: "draft (snd (snd (suggest_done response w))) = draft w"
  by (simp add: suggest_done_def Let_def setSuggestions_def dispatch_fields console_log_fields
      split: sum.split prod.split option.split)

text \<open>
  C9. No function of the module changes the draft of the store: not the exported actions,
  not the suggestion search (raw, throttled, or run by the throttle's timer), and not the
  callbacks of the two requests. The draft is read twice: its \<open>product\<close> goes into the
  parameters of the suggestion request, and the whole draft is the body of the submission.
\<close>

theorem draft_never_written:
  "draft (setProduct product w) = draft w
   \<and> draft (setTopic topic w) = draft w
   \<and> draft (setTitle title w) = draft w
   \<and> draft (setContent content w) = draft w
   \<and> draft (setSuggestions suggestions w) = draft w
   \<and> draft (snd (submitQuestion w)) = draft w
   \<and> draft (searchSuggestions title w) = draft w
   \<and> draft (searchSuggestions_throttled title w) = draft w
   \<and> draft (throttle_later searchSuggestions w) = draft w
   \<and> draft (deliver cb r w) = draft w
   \<and> data (last (network (searchSuggestions title w))) =
       [(''q'', title), (''max_questions'', JNum (safe 2)), (''max_documents'', JNum (safe 2)),
        (''product'', own (draft w) ''product'')]
   \<and> data (last (network (snd (submitQuestion (w\<lparr>csrf_input := Some csrf\<rparr>))))) = draft w"
proof -
  have s: "draft (searchSuggestions a v) = draft v" for a v
    by (simp add: searchSuggestions_fields)
  have t: "draft (searchSuggestions_throttled a v) = draft v" for a v
    unfolding searchSuggestions_throttled_def by (rule throttle_call_draft) (rule s)
  have d: "draft (deliver cb r w) = draft w"
    by (cases cb; cases r)
      (simp_all add: suggest_done_draft suggest_fail_def submit_done_def submit_fail_def
        dispatch_fields console_log_fields)
  have q: "draft (snd (submitQuestion w)) = draft w"
    by (simp add: submitQuestion_def Let_def dispatch_fields ajax_fields split: option.split)
  have l: "draft (throttle_later searchSuggestions w) = draft w"
    by (rule throttle_later_draft) (rule s)
  have r1: "data (last (network (searchSuggestions title w))) =
       [(''q'', title), (''max_questions'', JNum (safe 2)), (''max_documents'', JNum (safe 2)),
        (''product'', own (draft w) ''product'')]"
    by (simp add: searchSuggestions_def ajax_fields getQuestion_def)
  have r2: "data (last (network (snd (submitQuestion (w\<lparr>csrf_input := Some csrf\<rparr>))))) = draft w"
    by (simp add: submitQuestion_def Let_def dispatch_fields ajax_fields getQuestion_def)
  show ?thesis
    using s t d q l r1 r2
    by (simp add: setProduct_def setTopic_def setContent_def setSuggestions_def setTitle_def
        dispatch_fields)
qed

subsection \<open>Submission\<close>

lemma submitQuestion_dispatched:
  "dispatched (snd (submitQuestion w)) =
     dispatched w @ [\<lparr>etype = QUESTION_SUBMIT_OPTIMISTIC, payload = []\<rparr>]"
  by (simp add: submitQuestion_def Let_def dispatch_fields ajax_fields split: option.split)

lemma submitQuestion_sends:
  "csrf_input w = Some csrf \<Longrightarrow>
   submitQuestion w =
     (None, w\<lparr>dispatched := dispatched w @ [\<lparr>etype = QUESTION_SUBMIT_OPTIMISTIC, payload = []\<rparr>],
              network := network w @
                [\<lparr>sent_at = clock w, ajax_type = ''POST'', url = ''/api/2/question/'',
                  data = draft w, headers = [(''X-CSRFToken'', csrf)],
                  chained = SubmitCallbacks\<rparr>]\<rparr>)"
  by (simp add: submitQuestion_def Let_def dispatch_def ajax_def getQuestion_def)

text \<open>
  C2. Every call of \<open>submitQuestion\<close> hands \<open>QUESTION_SUBMIT_OPTIMISTIC\<close> to the dispatcher
  during the call, whether or not the request can then be sent. The request of the call
  does not exist before the call, so none of its callbacks can run earlier. When the page
  has its CSRF input, the call sends one POST of the draft; a successful response then adds
  exactly one \<open>QUESTION_SUBMIT_SUCCESS\<close> (the body is only logged), and a failed response
  adds exactly one \<open>QUESTION_SUBMIT_FAILURE\<close> whose \<open>error\<close> is the status text of the jqXHR.
\<close>

theorem submitQuestion_events:
  assumes "csrf_input w = Some csrf" and "length (network w) \<notin> set (settled w)"
  shows
    "dispatched (snd (submitQuestion v)) =
       dispatched v @ [\<lparr>etype = QUESTION_SUBMIT_OPTIMISTIC, payload = []\<rparr>]
     \<and> step (Respond (length (network w)) r) w = None
     \<and> fst (submitQuestion w) = None
     \<and> network (snd (submitQuestion w)) =
         network w @ [\<lparr>sent_at = clock w, ajax_type = ''POST'', url = ''/api/2/question/'',
                       data = draft w, headers = [(''X-CSRFToken'', csrf)],
                       chained = SubmitCallbacks\<rparr>]
     \<and> map_option dispatched
         (run [SubmitQuestion, Respond (length (network w)) (Success body textStatus xhr)] w) =
         Some (dispatched w @ [\<lparr>etype = QUESTION_SUBMIT_OPTIMISTIC, payload = []\<rparr>,
                               \<lparr>etype = QUESTION_SUBMIT_SUCCESS, payload = []\<rparr>])
     \<and> map_option dispatched
         (run [SubmitQuestion, Respond (length (network w)) (Failure err textStatus errorThrown)] w) =
         Some (dispatched w @ [\<lparr>etype = QUESTION_SUBMIT_OPTIMISTIC, payload = []\<rparr>,
                               \<lparr>etype = QUESTION_SUBMIT_FAILURE,
                                  payload = [(''error'', JStr (statusText err))]\<rparr>])"
proof -
  note sq = submitQuestion_sends [OF assms(1)]
  have a: "step (Respond (length (network w)) r) w = None"
    by simp
  have b: "map_option dispatched
         (run [SubmitQuestion, Respond (length (network w)) (Success body textStatus xhr)] w) =
         Some (dispatched w @ [\<lparr>etype = QUESTION_SUBMIT_OPTIMISTIC, payload = []\<rparr>,
                               \<lparr>etype = QUESTION_SUBMIT_SUCCESS, payload = []\<rparr>])"
    using assms(2) by (simp add: sq submit_done_def dispatch_fields console_log_fields)
  have c: "map_option dispatched
         (run [SubmitQuestion, Respond (length (network w)) (Failure err textStatus errorThrown)] w) =
         Some (dispatched w @ [\<lparr>etype = QUESTION_SUBMIT_OPTIMISTIC, payload = []\<rparr>,
                               \<lparr>etype = QUESTION_SUBMIT_FAILURE,
                                  payload = [(''error'', JStr (statusText err))]\<rparr>])"
    using assms(2) by (simp add: sq submit_fail_def dispatch_fields)
  show ?thesis
    using a b c by (simp add: submitQuestion_dispatched sq)
qed

text \<open>The page with a CSRF input, one submission, answered \<open>400 Bad Request\<close> or \<open>201 Created\<close>.\<close>

theorem submitQuestion_events_witness:
  "csrf_input (page [(''title'', JStr ''t'')] (Some ''tok'')) = Some ''tok''
   \<and> length (network (page [(''title'', JStr ''t'')] (Some ''tok''))) \<notin>
       set (settled (page [(''title'', JStr ''t'')] (Some ''tok'')))
   \<and> map_option dispatched
       (run [SubmitQuestion,
             Respond 0 (Failure \<lparr>status = 400, statusText = ''Bad Request''\<rparr> ''success'' ''Bad Request'')]
          (page [(''title'', JStr ''t'')] (Some ''tok''))) =
       Some [\<lparr>etype = QUESTION_SUBMIT_OPTIMISTIC, payload = []\<rparr>,
             \<lparr>etype = QUESTION_SUBMIT_FAILURE, payload = [(''error'', JStr ''Bad Request'')]\<rparr>]
   \<and> map_option dispatched
       (run [SubmitQuestion, Respond 0 (Success JNull ''success'' \<lparr>status = 201, statusText = ''Created''\<rparr>)]
          (page [(''title'', JStr ''t'')] (Some ''tok''))) =
       Some [\<lparr>etype = QUESTION_SUBMIT_OPTIMISTIC, payload = []\<rparr>,
             \<lparr>etype = QUESTION_SUBMIT_SUCCESS, payload = []\<rparr>]"
proof -
  let ?p = "page [(''title'', JStr ''t'')] (Some ''tok'')"
  have h1: "csrf_input ?p = Some ''tok''"
    by (simp add: page_def)
  have h2: "length (network ?p) \<notin> set (settled ?p)"
    by (simp add: page_def)
  have n: "length (network ?p) = 0" "dispatched ?p = []"
    by (simp_all add: page_def)
  note ev = submitQuestion_events [OF h1 h2, where body = JNull and textStatus = "''success''"
       and xhr = "\<lparr>status = 201, statusText = ''Created''\<rparr>"
       and err = "\<lparr>status = 400, statusText = ''Bad Request''\<rparr>"
       and errorThrown = "''Bad Request''", unfolded n append_Nil jqXHR.simps]
  show ?thesis
    using h1 h2 ev by blast
qed

subsection \<open>The suggestion request\<close>

lemma throttle_call_network:
  "\<exists>new. network (throttle_call searchSuggestions wait a w) = network w @ new \<and>
     (\<forall>r\<in>set new. r = \<lparr>sent_at = clock w, ajax_type = ''GET'', url = ''/api/2/search/suggest'',
          data = [(''q'', a), (''max_questions'', JNum (safe 2)), (''max_documents'', JNum (safe 2)),
                  (''product'', own (draft w) ''product'')],
          headers = [], chained = SuggestCallbacks\<rparr>)"
  by (simp add: throttle_call_def searchSuggestions_def ajax_def getQuestion_def split: option.split)

lemma suggest_done_network: "network (snd (snd (suggest_done response w))) = network w"
  by (simp add: suggest_done_def Let_def setSuggestions_def dispatch_fields console_log_fields
      split: sum.split prod.split option.split)

lemma deliver_network: "network (deliver cb r w) = network w"
  by (cases cb; cases r)
    (simp_all add: suggest_done_network suggest_fail_def submit_done_def submit_fail_def
      dispatch_fields console_log_fields)

text \<open>
  C8. The suggestion search sends one GET to \<open>/api/2/search/suggest\<close> whose parameters are
  exactly \<open>q\<close> (the title argument), \<open>max_questions = 2\<close>, \<open>max_documents = 2\<close> and \<open>product\<close>
  (the \<open>product\<close> of the draft that \<open>getQuestion()\<close> returns when the search runs). Every
  request with the suggestion callbacks that any turn of the event loop adds, directly or
  through the throttle and its timer, has this shape, with the draft of that turn.
\<close>

theorem suggestion_request_parameters:
  "searchSuggestions title w =
     w\<lparr>network := network w @
         [\<lparr>sent_at = clock w, ajax_type = ''GET'', url = ''/api/2/search/suggest'',
           data = [(''q'', title), (''max_questions'', JNum (safe 2)), (''max_documents'', JNum (safe 2)),
                   (''product'', own (getQuestion w) ''product'')],
           headers = [], chained = SuggestCallbacks\<rparr>]\<rparr>
   \<and> (step t w = Some w' \<longrightarrow>
        (\<exists>new. network w' = network w @ new \<and>
           (\<forall>r\<in>set new. chained r = SuggestCallbacks \<longrightarrow>
              (\<exists>a. r = \<lparr>sent_at = clock w, ajax_type = ''GET'', url = ''/api/2/search/suggest'',
                     data = [(''q'', a), (''max_questions'', JNum (safe 2)), (''max_documents'', JNum (safe 2)),
                             (''product'', own (getQuestion w) ''product'')],
                     headers = [], chained = SuggestCallbacks\<rparr>))))"
proof (intro conjI impI)
  show "searchSuggestions title w =
     w\<lparr>network := network w @
         [\<lparr>sent_at = clock w, ajax_type = ''GET'', url = ''/api/2/search/suggest'',
           data = [(''q'', title), (''max_questions'', JNum (safe 2)), (''max_documents'', JNum (safe 2)),
                   (''product'', own (getQuestion w) ''product'')],
           headers = [], chained = SuggestCallbacks\<rparr>]\<rparr>"
    by (simp add: searchSuggestions_def ajax_def)
next
  assume st: "step t w = Some w'"
  let ?shape = "\<lambda>r. chained r = SuggestCallbacks \<longrightarrow>
              (\<exists>a. r = \<lparr>sent_at = clock w, ajax_type = ''GET'', url = ''/api/2/search/suggest'',
                     data = [(''q'', a), (''max_questions'', JNum (safe 2)), (''max_documents'', JNum (safe 2)),
                             (''product'', own (getQuestion w) ''product'')],
                     headers = [], chained = SuggestCallbacks\<rparr>)"
  show "\<exists>new. network w' = network w @ new \<and> (\<forall>r\<in>set new. ?shape r)"
  proof (cases t)
    case (SetTitle a)
    obtain new where "network (throttle_call searchSuggestions 500 a
          (dispatch \<lparr>etype = SET_TITLE, payload = [(''title'', a)]\<rparr> w)) = network w @ new"
      and "\<forall>r\<in>set new. r = \<lparr>sent_at = clock w, ajax_type = ''GET'', url = ''/api/2/search/suggest'',
          data = [(''q'', a), (''max_questions'', JNum (safe 2)), (''max_documents'', JNum (safe 2)),
                  (''product'', own (draft w) ''product'')],
          headers = [], chained = SuggestCallbacks\<rparr>"
      using throttle_call_network [of 500 a "dispatch \<lparr>etype = SET_TITLE, payload = [(''title'', a)]\<rparr> w"]
      by (auto simp add: dispatch_fields)
    with st SetTitle show ?thesis
      by (auto simp add: setTitle_def searchSuggestions_throttled_def getQuestion_def)
  next
    case TimerFires
    with st show ?thesis
      by (auto simp add: throttle_later_def searchSuggestions_def ajax_def getQuestion_def
          split: option.splits prod.splits if_splits)
  next
    case (Respond i r)
    with st show ?thesis
      by (auto simp add: deliver_network split: if_splits)
  next
    case SubmitQuestion
    with st show ?thesis
      by (auto simp add: submitQuestion_def Let_def dispatch_fields ajax_fields split: option.splits)
  qed (use st in \<open>auto simp add: setProduct_def setTopic_def setContent_def setSuggestions_def
        dispatch_fields\<close>)
qed


text \<open>The first title change on a fresh page whose draft has the product \<open>firefox\<close>.\<close>

theorem suggestion_request_parameters_witness:
  "step (SetTitle (JStr ''t'')) (page [(''product'', JStr ''firefox'')] None) =
     Some (setTitle (JStr ''t'') (page [(''product'', JStr ''firefox'')] None))
   \<and> network (setTitle (JStr ''t'') (page [(''product'', JStr ''firefox'')] None)) =
       [\<lparr>sent_at = 0, ajax_type = ''GET'', url = ''/api/2/search/suggest'',
         data = [(''q'', JStr ''t''), (''max_questions'', JNum (safe 2)), (''max_documents'', JNum (safe 2)),
                 (''product'', JStr ''firefox'')],
         headers = [], chained = SuggestCallbacks\<rparr>]
   \<and> (\<exists>new. network (setTitle (JStr ''t'') (page [(''product'', JStr ''firefox'')] None)) =
          network (page [(''product'', JStr ''firefox'')] None) @ new \<and>
          (\<forall>r\<in>set new. chained r = SuggestCallbacks \<longrightarrow>
             (\<exists>a. r = \<lparr>sent_at = clock (page [(''product'', JStr ''firefox'')] None),
                    ajax_type = ''GET'', url = ''/api/2/search/suggest'',
                    data = [(''q'', a), (''max_questions'', JNum (safe 2)), (''max_documents'', JNum (safe 2)),
                            (''product'',
                             own (getQuestion (page [(''product'', JStr ''firefox'')] None)) ''product'')],
                    headers = [], chained = SuggestCallbacks\<rparr>)))"
proof -
  let ?p = "page [(''product'', JStr ''firefox'')] None"
  have h: "step (SetTitle (JStr ''t'')) ?p = Some (setTitle (JStr ''t'') ?p)"
    by simp
  note c = suggestion_request_parameters [THEN conjunct2, THEN mp, OF h]
  have e: "network (setTitle (JStr ''t'') ?p) =
       [\<lparr>sent_at = 0, ajax_type = ''GET'', url = ''/api/2/search/suggest'',
         data = [(''q'', JStr ''t''), (''max_questions'', JNum (safe 2)), (''max_documents'', JNum (safe 2)),
                 (''product'', JStr ''firefox'')],
         headers = [], chained = SuggestCallbacks\<rparr>]"
    by (simp add: setTitle_def searchSuggestions_throttled_def throttle_call_def
        searchSuggestions_def ajax_def dispatch_def getQuestion_def own_def page_def)
  show ?thesis
    using h c e by blast
qed

subsection \<open>The success callback of the suggestion search\<close>

lemma js_error_is_TypeError: "(e::js_error) = TypeError"
  by (cases e) simp

lemma own_update: "own (AList.update k x ps) k' = (if k' = k then x else own ps k')"
  by (simp add: own_def update_conv')

lemma has_own_update: "has_own (AList.update k x ps) k' = (k' = k \<or> has_own ps k')"
  by (simp add: has_own_def update_conv')

lemma set_prop_object:
  "is_object v \<Longrightarrow>
   \<exists>v'. set_prop v k x = Inr v' \<and> is_object v' \<and> get_prop v' k = Inr x \<and>
        (\<forall>k'. k' \<noteq> k \<longrightarrow> get_prop v' k' = get_prop v k')"
  by (cases v) (simp_all add: own_update)

lemma set_prop_primitive: "\<not> is_object v \<Longrightarrow> set_prop v k x = Inl TypeError"
  by (cases v) simp_all

lemma get_prop_object: "is_object v \<Longrightarrow> \<exists>x. get_prop v k = Inr x"
  by (cases v) simp_all

lemma tag_document_object:
  assumes "is_object d"
  shows "snd (tag_document d) = None"
    and "get_prop (fst (tag_document d)) ''type'' = Inr (JStr ''document'')"
    and "k \<noteq> ''type'' \<Longrightarrow> get_prop (fst (tag_document d)) k = get_prop d k"
proof -
  obtain d' where "set_prop d ''type'' (JStr ''document'') = Inr d'"
    and "get_prop d' ''type'' = Inr (JStr ''document'')"
    and "\<And>k'. k' \<noteq> ''type'' \<Longrightarrow> get_prop d' k' = get_prop d k'"
    using set_prop_object [OF assms, of "''type''" "JStr ''document''"] by blast
  then show "snd (tag_document d) = None"
    and "get_prop (fst (tag_document d)) ''type'' = Inr (JStr ''document'')"
    and "k \<noteq> ''type'' \<Longrightarrow> get_prop (fst (tag_document d)) k = get_prop d k"
    by (simp_all add: tag_document_def)
qed

lemma tag_document_primitive: "\<not> is_object d \<Longrightarrow> tag_document d = (d, Some TypeError)"
  by (simp add: tag_document_def set_prop_primitive)

lemma tag_document_None: "snd (tag_document d) = None \<Longrightarrow> is_object d"
  by (rule ccontr) (simp add: tag_document_primitive)

lemma tag_question_object:
  assumes "is_object q" and "get_prop q ''id'' = Inr i" and "ToString i = Inr s"
  shows "snd (tag_question q) = None"
    and "get_prop (fst (tag_question q)) ''type'' = Inr (JStr ''question'')"
    and "get_prop (fst (tag_question q)) ''url'' = Inr (JStr (''/questions/'' @ s))"
    and "get_prop (fst (tag_question q)) ''summary'' = Inr (JStr '''')"
    and "k \<noteq> ''type'' \<Longrightarrow> k \<noteq> ''url'' \<Longrightarrow> k \<noteq> ''summary'' \<Longrightarrow>
         get_prop (fst (tag_question q)) k = get_prop q k"
proof -
  obtain q1 where 1: "set_prop q ''type'' (JStr ''question'') = Inr q1" "is_object q1"
    "get_prop q1 ''type'' = Inr (JStr ''question'')"
    "\<And>k'. k' \<noteq> ''type'' \<Longrightarrow> get_prop q1 k' = get_prop q k'"
    using set_prop_object [OF assms(1), of "''type''" "JStr ''question''"] by blast
  obtain q2 where 2: "set_prop q1 ''url'' (JStr (''/questions/'' @ s)) = Inr q2" "is_object q2"
    "get_prop q2 ''url'' = Inr (JStr (''/questions/'' @ s))"
    "\<And>k'. k' \<noteq> ''url'' \<Longrightarrow> get_prop q2 k' = get_prop q1 k'"
    using set_prop_object [OF 1(2), of "''url''" "JStr (''/questions/'' @ s)"] by blast
  obtain q3 where 3: "set_prop q2 ''summary'' (JStr '''') = Inr q3" "is_object q3"
    "get_prop q3 ''summary'' = Inr (JStr '''')"
    "\<And>k'. k' \<noteq> ''summary'' \<Longrightarrow> get_prop q3 k' = get_prop q2 k'"
    using set_prop_object [OF 2(2), of "''summary''" "JStr []"] by blast
  have i: "get_prop q1 ''id'' = Inr i"
    using 1(4) [of "''id''"] assms(2) by simp
  have r: "tag_question q = (q3, None)"
    using 1(1) i assms(3) 2(1) 3(1) by (simp add: tag_question_def)
  show "snd (tag_question q) = None"
    by (simp add: r)
  show "get_prop (fst (tag_question q)) ''type'' = Inr (JStr ''question'')"
    by (simp add: r 3(4) 2(4) 1(3))
  show "get_prop (fst (tag_question q)) ''url'' = Inr (JStr (''/questions/'' @ s))"
    using 2(3) by (simp add: r 3(4))
  show "get_prop (fst (tag_question q)) ''summary'' = Inr (JStr '''')"
    by (simp add: r 3(3))
  show "k \<noteq> ''type'' \<Longrightarrow> k \<noteq> ''url'' \<Longrightarrow> k \<noteq> ''summary'' \<Longrightarrow>
         get_prop (fst (tag_question q)) k = get_prop q k"
    by (simp add: r 3(4) 2(4) 1(4))
qed

lemma tag_question_None:
  assumes "snd (tag_question q) = None"
  shows "is_object q \<and> (\<exists>i s. get_prop q ''id'' = Inr i \<and> ToString i = Inr s)"
proof -
  have o: "is_object q"
    using assms by - (rule ccontr, simp add: tag_question_def set_prop_primitive)
  then obtain i where i: "get_prop q ''id'' = Inr i"
    using get_prop_object by blast
  obtain q1 where 1: "set_prop q ''type'' (JStr ''question'') = Inr q1"
    "\<And>k'. k' \<noteq> ''type'' \<Longrightarrow> get_prop q1 k' = get_prop q k'"
    using set_prop_object [OF o, of "''type''" "JStr ''question''"] by blast
  have "get_prop q1 ''id'' = Inr i"
    using 1(2) [of "''id''"] i by simp
  with assms 1(1) have "\<exists>s. ToString i = Inr s"
    by (cases "ToString i") (simp_all add: tag_question_def)
  with o i show ?thesis by blast
qed

lemma array_map_ok:
  "\<forall>x\<in>set xs. snd (f x) = None \<Longrightarrow> array_map f xs = (map (\<lambda>x. fst (f x)) xs, None)"
  by (induction xs) (auto split: prod.split option.split)

lemma array_map_None:
  "array_map f xs = (ys, None) \<Longrightarrow> (\<forall>x\<in>set xs. snd (f x) = None) \<and> ys = map (\<lambda>x. fst (f x)) xs"
  by (induction xs arbitrary: ys) (auto split: prod.splits option.splits)

lemma call_map_not_array: "\<not> is_array v \<Longrightarrow> call_map v f = (v, Some TypeError)"
  by (cases v) simp_all

lemma call_map_None:
  assumes "call_map v f = (v', None)"
  obtains es ps where "v = JArr es ps" and "v' = JArr (map (\<lambda>x. fst (f x)) es) ps"
    and "\<forall>x\<in>set es. snd (f x) = None"
proof (cases v)
  case (JArr es ps)
  with assms have "array_map f es = (elements v', None)" and "v' = JArr (elements v') ps"
    by (auto split: if_splits prod.splits)
  with JArr that array_map_None [of f es "elements v'"] show ?thesis
    by metis
qed (use assms in simp_all)

lemma get_store_prop_other:
  "k' \<noteq> k \<Longrightarrow> get_prop (store_prop v k x) k' = get_prop v k'"
  by (cases v) (simp_all add: own_update)

lemma get_store_prop_same:
  "get_prop v k = Inr y \<Longrightarrow> y \<noteq> JUndefined \<Longrightarrow> get_prop (store_prop v k x) k = Inr x"
  by (cases v) (auto simp add: has_own_def own_def update_conv' split: option.splits)


lemma call_map_ok:
  "\<not> has_own ps ''map'' \<Longrightarrow> \<forall>x\<in>set es. snd (f x) = None \<Longrightarrow>
   call_map (JArr es ps) f = (JArr (map (\<lambda>x. fst (f x)) es) ps, None)"
  by (simp add: array_map_ok)

lemma suggest_done_ok:
  assumes "get_prop response ''documents'' = Inr (JArr docs dps)"
    and "\<not> has_own dps ''map''" and "\<forall>d\<in>set docs. snd (tag_document d) = None"
    and "get_prop response ''questions'' = Inr (JArr qs qps)"
    and "\<not> has_own qps ''map''" and "\<forall>q\<in>set qs. snd (tag_question q) = None"
  shows "suggest_done response w =
     (None,
      store_prop (store_prop response ''documents'' (JArr (map (\<lambda>d. fst (tag_document d)) docs) dps))
        ''questions'' (JArr (map (\<lambda>q. fst (tag_question q)) qs) qps),
      setSuggestions
        (JArr (map (\<lambda>d. fst (tag_document d)) docs @ map (\<lambda>q. fst (tag_question q)) qs) [])
        (console_log [LStr ''suggest:'', LVal response] w))"
proof -
  have d: "call_map (JArr docs dps) tag_document =
      (JArr (map (\<lambda>d. fst (tag_document d)) docs) dps, None)"
    using assms(2,3) by (rule call_map_ok)
  have q: "call_map (JArr qs qps) tag_question =
      (JArr (map (\<lambda>q. fst (tag_question q)) qs) qps, None)"
    using assms(5,6) by (rule call_map_ok)
  have g: "get_prop (store_prop response ''documents'' x) ''questions'' = Inr (JArr qs qps)" for x
    by (simp add: get_store_prop_other assms(4))
  show ?thesis
    unfolding suggest_done_def Let_def assms(1) sum.case d prod.case option.case g q elements.simps
    by (rule refl)
qed

lemma suggest_done_None:
  assumes "fst (suggest_done response w) = None"
  obtains docs dps qs qps where "get_prop response ''documents'' = Inr (JArr docs dps)"
    and "\<not> has_own dps ''map''" and "\<forall>d\<in>set docs. snd (tag_document d) = None"
    and "get_prop response ''questions'' = Inr (JArr qs qps)"
    and "\<not> has_own qps ''map''" and "\<forall>q\<in>set qs. snd (tag_question q) = None"
proof -
  from assms obtain documents where 1: "get_prop response ''documents'' = Inr documents"
    by (cases "get_prop response ''documents''") (simp_all add: suggest_done_def Let_def)
  from assms 1 obtain docSuggestions where 2: "call_map documents tag_document = (docSuggestions, None)"
    by (cases "call_map documents tag_document")
      (auto simp add: suggest_done_def Let_def split: option.splits)
  have g: "get_prop (store_prop response ''documents'' docSuggestions) ''questions'' =
      get_prop response ''questions''"
    by (simp add: get_store_prop_other)
  from assms 1 2 obtain questions where 3: "get_prop response ''questions'' = Inr questions"
    by (cases "get_prop response ''questions''") (simp_all add: suggest_done_def Let_def g)
  from assms 1 2 3 obtain questionSuggestions where
    4: "call_map questions tag_question = (questionSuggestions, None)"
    by (cases "call_map questions tag_question")
      (auto simp add: suggest_done_def Let_def g split: option.splits)
  from 2 obtain docs dps where 5: "documents = JArr docs dps" "\<forall>d\<in>set docs. snd (tag_document d) = None"
    by (rule call_map_None)
  from 4 obtain qs qps where 6: "questions = JArr qs qps" "\<forall>q\<in>set qs. snd (tag_question q) = None"
    by (rule call_map_None)
  from 2 5 have 7: "\<not> has_own dps ''map''"
    by (auto split: if_splits)
  from 4 6 have 8: "\<not> has_own qps ''map''"
    by (auto split: if_splits)
  from 1 3 5 6 7 8 that show ?thesis
    by blast
qed

lemma suggest_done_throws:
  "fst (suggest_done response w) = Some e \<Longrightarrow>
   dispatched (snd (snd (suggest_done response w))) = dispatched w"
  by (auto simp add: suggest_done_def Let_def console_log_fields
      split: sum.splits prod.splits option.splits)

lemma has_array_iff: "has_array v k \<longleftrightarrow> (\<exists>es ps. get_prop v k = Inr (JArr es ps))"
proof (cases "get_prop v k")
  case (Inr x)
  then show ?thesis by (cases x) (simp_all add: has_array_def)
qed (simp add: has_array_def)

lemma suggest_done_entries:
  assumes "get_prop response ''documents'' = Inr (JArr docs [])"
    and "get_prop response ''questions'' = Inr (JArr qs [])"
    and "\<forall>d\<in>set docs. is_object d"
    and "\<forall>q\<in>set qs. is_object q \<and> (\<exists>i s. get_prop q ''id'' = Inr i \<and> ToString i = Inr s)"
  shows "fst (suggest_done response w) = None"
    and "dispatched (snd (snd (suggest_done response w))) =
      dispatched w @ [\<lparr>etype = SET_SUGGESTIONS, payload = [(''suggestions'',
        JArr (map (\<lambda>d. fst (tag_document d)) docs @ map (\<lambda>q. fst (tag_question q)) qs) [])]\<rparr>]"
proof -
  have d: "\<forall>d\<in>set docs. snd (tag_document d) = None"
    using assms(3) by (simp add: tag_document_object)
  have q: "\<forall>q\<in>set qs. snd (tag_question q) = None"
    using assms(4) tag_question_object(1) by blast
  have m: "\<not> has_own [] ''map''"
    by (simp add: has_own_def)
  note r = suggest_done_ok [OF assms(1) m d assms(2) m q]
  show "fst (suggest_done response w) = None"
    by (simp add: r)
  show "dispatched (snd (snd (suggest_done response w))) =
      dispatched w @ [\<lparr>etype = SET_SUGGESTIONS, payload = [(''suggestions'',
        JArr (map (\<lambda>d. fst (tag_document d)) docs @ map (\<lambda>q. fst (tag_question q)) qs) [])]\<rparr>]"
    by (simp add: r setSuggestions_def dispatch_fields console_log_fields)
qed




text \<open>
  C5, as amended. When the response has the two arrays, every entry is an object and the
  \<open>id\<close> of every question can be converted to a string, every document entry of the posted
  \<open>SET_SUGGESTIONS\<close> payload has the \<open>summary\<close> that the response gave it (none, if the
  response gave none): the callback sets only the \<open>type\<close> of a document. The \<open>summary\<close> is
  set to \<open>''\<close> for the question entries.
\<close>

theorem document_summaries_kept:
  assumes "get_prop response ''documents'' = Inr (JArr docs [])"
    and "get_prop response ''questions'' = Inr (JArr qs [])"
    and "\<forall>d\<in>set docs. is_object d"
    and "\<forall>q\<in>set qs. is_object q \<and> (\<exists>i s. get_prop q ''id'' = Inr i \<and> ToString i = Inr s)"
  shows "\<exists>ds' qs'.
       dispatched (snd (snd (suggest_done response w))) =
         dispatched w @
           [\<lparr>etype = SET_SUGGESTIONS, payload = [(''suggestions'', JArr (ds' @ qs') [])]\<rparr>]
       \<and> length ds' = length docs \<and> length qs' = length qs
       \<and> (\<forall>n<length docs. get_prop (ds' ! n) ''summary'' = get_prop (docs ! n) ''summary'')
       \<and> (\<forall>n<length qs. get_prop (qs' ! n) ''summary'' = Inr (JStr ''''))"
proof (intro conjI exI)
  let ?ds = "map (\<lambda>d. fst (tag_document d)) docs" and ?qs = "map (\<lambda>q. fst (tag_question q)) qs"
  show "dispatched (snd (snd (suggest_done response w))) =
         dispatched w @
           [\<lparr>etype = SET_SUGGESTIONS, payload = [(''suggestions'', JArr (?ds @ ?qs) [])]\<rparr>]"
    using assms by (rule suggest_done_entries(2))
  show "length ?ds = length docs" and "length ?qs = length qs"
    by simp_all
  show "\<forall>n<length docs. get_prop (?ds ! n) ''summary'' = get_prop (docs ! n) ''summary''"
    using assms(3) by (simp add: tag_document_object)
  show "\<forall>n<length qs. get_prop (?qs ! n) ''summary'' = Inr (JStr '''')"
  proof (intro allI impI)
    fix n assume n: "n < length qs"
    then have "qs ! n \<in> set qs" by simp
    with assms(4) obtain i s where o: "is_object (qs ! n)"
      and i: "get_prop (qs ! n) ''id'' = Inr i" and s: "ToString i = Inr s"
      by blast
    show "get_prop (?qs ! n) ''summary'' = Inr (JStr '''')"
      using n tag_question_object(4) [OF o i s] by simp
  qed
qed

text \<open>
  C10. When \<open>documents\<close> or \<open>questions\<close> of the response cannot be read or is not an array,
  the success callback throws a TypeError and nothing is handed to the dispatcher. The
  callback tags the entries of the response in place: whenever it completes, the entries
  it posted are the entries now found in the \<open>documents\<close> and \<open>questions\<close> arrays of the
  response object itself, each with its \<open>type\<close> set.
\<close>

theorem missing_array_throws_before_dispatch:
  "(\<not> has_array response ''documents'' \<or> \<not> has_array response ''questions'' \<longrightarrow>
      fst (suggest_done response w) = Some TypeError
      \<and> dispatched (snd (snd (suggest_done response w))) = dispatched w)
   \<and> (fst (suggest_done response w) = None \<longrightarrow>
        (\<exists>ds dps qs qps.
           get_prop (fst (snd (suggest_done response w))) ''documents'' = Inr (JArr ds dps)
           \<and> get_prop (fst (snd (suggest_done response w))) ''questions'' = Inr (JArr qs qps)
           \<and> dispatched (snd (snd (suggest_done response w))) =
               dispatched w @
                 [\<lparr>etype = SET_SUGGESTIONS, payload = [(''suggestions'', JArr (ds @ qs) [])]\<rparr>]
           \<and> (\<forall>d\<in>set ds. get_prop d ''type'' = Inr (JStr ''document''))
           \<and> (\<forall>q\<in>set qs. get_prop q ''type'' = Inr (JStr ''question''))))"
proof (intro conjI impI)
  assume a: "\<not> has_array response ''documents'' \<or> \<not> has_array response ''questions''"
  have "fst (suggest_done response w) \<noteq> None"
  proof
    assume "fst (suggest_done response w) = None"
    then obtain docs dps qs qps where "get_prop response ''documents'' = Inr (JArr docs dps)"
      and "get_prop response ''questions'' = Inr (JArr qs qps)"
      by (rule suggest_done_None)
    with a show False
      by (simp add: has_array_iff)
  qed
  then obtain e where e: "fst (suggest_done response w) = Some e"
    by blast
  then show "fst (suggest_done response w) = Some TypeError"
    by (simp add: js_error_is_TypeError [of e])
  from e show "dispatched (snd (snd (suggest_done response w))) = dispatched w"
    by (rule suggest_done_throws)
next
  assume "fst (suggest_done response w) = None"
  then obtain docs dps qs qps where 1: "get_prop response ''documents'' = Inr (JArr docs dps)"
    and 2: "\<not> has_own dps ''map''" and 3: "\<forall>d\<in>set docs. snd (tag_document d) = None"
    and 4: "get_prop response ''questions'' = Inr (JArr qs qps)"
    and 5: "\<not> has_own qps ''map''" and 6: "\<forall>q\<in>set qs. snd (tag_question q) = None"
    by (rule suggest_done_None)
  let ?ds = "map (\<lambda>d. fst (tag_document d)) docs" and ?qs = "map (\<lambda>q. fst (tag_question q)) qs"
  note r = suggest_done_ok [OF 1 2 3 4 5 6, of w]
  have gq: "get_prop (store_prop response ''documents'' (JArr ?ds dps)) ''questions'' = Inr (JArr qs qps)"
    by (simp add: get_store_prop_other 4)
  have a: "get_prop (fst (snd (suggest_done response w))) ''documents'' = Inr (JArr ?ds dps)"
    using get_store_prop_same [OF 1, of "JArr ?ds dps"] by (simp add: r get_store_prop_other)
  have b: "get_prop (fst (snd (suggest_done response w))) ''questions'' = Inr (JArr ?qs qps)"
    using get_store_prop_same [OF gq, of "JArr ?qs qps"] by (simp add: r)
  have c: "dispatched (snd (snd (suggest_done response w))) =
               dispatched w @
                 [\<lparr>etype = SET_SUGGESTIONS, payload = [(''suggestions'', JArr (?ds @ ?qs) [])]\<rparr>]"
    by (simp add: r setSuggestions_def dispatch_fields console_log_fields)
  have d: "\<forall>d\<in>set ?ds. get_prop d ''type'' = Inr (JStr ''document'')"
    using 3 tag_document_None tag_document_object(2) by auto
  have e: "\<forall>q\<in>set ?qs. get_prop q ''type'' = Inr (JStr ''question'')"
  proof
    fix q' assume "q' \<in> set ?qs"
    then obtain q where q: "q \<in> set qs" "q' = fst (tag_question q)"
      by auto
    with 6 have "snd (tag_question q) = None" by simp
    then obtain i s where "is_object q" "get_prop q ''id'' = Inr i" "ToString i = Inr s"
      using tag_question_None by blast
    then show "get_prop q' ''type'' = Inr (JStr ''question'')"
      unfolding q(2) by (rule tag_question_object(2))
  qed
  from a b c d e show "\<exists>ds dps qs qps.
           get_prop (fst (snd (suggest_done response w))) ''documents'' = Inr (JArr ds dps)
           \<and> get_prop (fst (snd (suggest_done response w))) ''questions'' = Inr (JArr qs qps)
           \<and> dispatched (snd (snd (suggest_done response w))) =
               dispatched w @
                 [\<lparr>etype = SET_SUGGESTIONS, payload = [(''suggestions'', JArr (ds @ qs) [])]\<rparr>]
           \<and> (\<forall>d\<in>set ds. get_prop d ''type'' = Inr (JStr ''document''))
           \<and> (\<forall>q\<in>set qs. get_prop q ''type'' = Inr (JStr ''question''))"
    by blast
qed

lemmas suggest_done_eval =
  suggest_done_def Let_def tag_document_def tag_question_def own_def has_own_def
  show_int_def show_nat.simps safe_inverse setSuggestions_def dispatch_def console_log_def page_def


text \<open>The same response: its document keeps the summary \<open>abc\<close>.\<close>

theorem document_summaries_kept_witness:
  "(\<exists>ds' qs'.
       dispatched (snd (snd (suggest_done
          (JObj [(''documents'', JArr [JObj [(''title'', JStr ''D''), (''summary'', JStr ''abc'')]] []),
                 (''questions'', JArr [JObj [(''id'', JNum (safe 42)), (''title'', JStr ''Q'')]] [])])
          (page [] None)))) =
         dispatched (page [] None) @
           [\<lparr>etype = SET_SUGGESTIONS, payload = [(''suggestions'', JArr (ds' @ qs') [])]\<rparr>]
       \<and> length ds' = length [JObj [(''title'', JStr ''D''), (''summary'', JStr ''abc'')]]
       \<and> length qs' = length [JObj [(''id'', JNum (safe 42)), (''title'', JStr ''Q'')]]
       \<and> (\<forall>n<length [JObj [(''title'', JStr ''D''), (''summary'', JStr ''abc'')]].
            get_prop (ds' ! n) ''summary'' =
            get_prop ([JObj [(''title'', JStr ''D''), (''summary'', JStr ''abc'')]] ! n) ''summary'')
       \<and> (\<forall>n<length [JObj [(''id'', JNum (safe 42)), (''title'', JStr ''Q'')]].
            get_prop (qs' ! n) ''summary'' = Inr (JStr '''')))
   \<and> get_prop (JObj [(''title'', JStr ''D''), (''summary'', JStr ''abc'')]) ''summary'' =
       Inr (JStr ''abc'')"
proof -
  let ?d = "JObj [(''title'', JStr ''D''), (''summary'', JStr ''abc'')]"
  let ?q = "JObj [(''id'', JNum (safe 42)), (''title'', JStr ''Q'')]"
  let ?r = "JObj [(''documents'', JArr [?d] []), (''questions'', JArr [?q] [])]"
  have h1: "get_prop ?r ''documents'' = Inr (JArr [?d] [])"
    by (simp add: own_def)
  have h2: "get_prop ?r ''questions'' = Inr (JArr [?q] [])"
    by (simp add: own_def)
  have h3: "\<forall>d\<in>set [?d]. is_object d"
    by simp
  have "ToString (JNum (safe 42)) = Inr ''42''"
    by (simp add: show_int_def show_nat.simps safe_inverse)
  then have h4: "\<forall>q\<in>set [?q]. is_object q \<and> (\<exists>i s. get_prop q ''id'' = Inr i \<and> ToString i = Inr s)"
    by (simp add: own_def)
  have e: "get_prop ?d ''summary'' = Inr (JStr ''abc'')"
    by (simp add: own_def)
  show ?thesis
    using document_summaries_kept [OF h1 h2 h3 h4, of "page [] None"] e
    by (rule conjI)
qed

text \<open>
  C5 as stated fails: a document that arrives with the summary \<open>abc\<close> is posted with the
  summary \<open>abc\<close>.
\<close>

theorem document_summary_not_blank:
  "dispatched (snd (snd (suggest_done
      (JObj [(''documents'',
              JArr [JObj [(''title'', JStr ''D''), (''url'', JStr ''/kb/d''),
                          (''summary'', JStr ''abc'')]] []),
             (''questions'', JArr [] [])])
      (page [] None)))) =
     [\<lparr>etype = SET_SUGGESTIONS, payload = [(''suggestions'',
        JArr [JObj [(''title'', JStr ''D''), (''url'', JStr ''/kb/d''),
                    (''summary'', JStr ''abc''), (''type'', JStr ''document'')]] [])]\<rparr>]"
  by (simp add: suggest_done_eval)

text \<open>
  A response without \<open>questions\<close>: the callback throws after it has tagged the document,
  and the tag stays in the response. A response with both arrays: the callback completes.
\<close>

theorem missing_array_throws_before_dispatch_witness:
  "\<not> has_array (JObj [(''documents'', JArr [JObj []] [])]) ''questions''
   \<and> fst (suggest_done (JObj [(''documents'', JArr [JObj []] [])]) (page [] None)) = Some TypeError
   \<and> dispatched (snd (snd (suggest_done (JObj [(''documents'', JArr [JObj []] [])]) (page [] None)))) =
       dispatched (page [] None)
   \<and> fst (snd (suggest_done (JObj [(''documents'', JArr [JObj []] [])]) (page [] None))) =
       JObj [(''documents'', JArr [JObj [(''type'', JStr ''document'')]] [])]
   \<and> fst (suggest_done
        (JObj [(''documents'', JArr [JObj []] []), (''questions'', JArr [JObj []] [])])
        (page [] None)) = None
   \<and> (\<exists>ds dps qs qps.
         get_prop (fst (snd (suggest_done
             (JObj [(''documents'', JArr [JObj []] []), (''questions'', JArr [JObj []] [])])
             (page [] None)))) ''documents'' = Inr (JArr ds dps)
         \<and> get_prop (fst (snd (suggest_done
             (JObj [(''documents'', JArr [JObj []] []), (''questions'', JArr [JObj []] [])])
             (page [] None)))) ''questions'' = Inr (JArr qs qps)
         \<and> dispatched (snd (snd (suggest_done
             (JObj [(''documents'', JArr [JObj []] []), (''questions'', JArr [JObj []] [])])
             (page [] None)))) =
             dispatched (page [] None) @
               [\<lparr>etype = SET_SUGGESTIONS, payload = [(''suggestions'', JArr (ds @ qs) [])]\<rparr>]
         \<and> (\<forall>d\<in>set ds. get_prop d ''type'' = Inr (JStr ''document''))
         \<and> (\<forall>q\<in>set qs. get_prop q ''type'' = Inr (JStr ''question'')))"
proof -
  let ?r = "JObj [(''documents'', JArr [JObj []] [])]"
  let ?r2 = "JObj [(''documents'', JArr [JObj []] []), (''questions'', JArr [JObj []] [])]"
  have h: "\<not> has_array ?r ''questions''"
    by (simp add: has_array_def own_def)
  then have h': "\<not> has_array ?r ''documents'' \<or> \<not> has_array ?r ''questions''"
    by (rule disjI2)
  note a = missing_array_throws_before_dispatch [of ?r "page [] None", THEN conjunct1, THEN mp, OF h']
  have m: "fst (snd (suggest_done ?r (page [] None))) =
       JObj [(''documents'', JArr [JObj [(''type'', JStr ''document'')]] [])]"
    by (simp add: suggest_done_eval)
  have n: "fst (suggest_done ?r2 (page [] None)) = None"
    by (simp add: suggest_done_eval)
  note b = missing_array_throws_before_dispatch [of ?r2 "page [] None", THEN conjunct2, THEN mp, OF n]
  show ?thesis
    using h a m n b by (intro conjI) (erule conjunct1 conjunct2 | assumption)+
qed

subsection \<open>The throttled suggestion search\<close>

lemma spaced_snoc: "spaced d (xs @ [t]) \<longleftrightarrow> spaced d xs \<and> (xs = [] \<or> last xs + d \<le> t)"
  by (induction d xs rule: spaced.induct) auto

lemma spaced_Cons_all: "spaced d (a # xs) \<Longrightarrow> x \<in> set xs \<Longrightarrow> a + d \<le> x"
  by (induction xs arbitrary: a) (fastforce)+

lemma spaced_tail: "spaced d (a # xs) \<Longrightarrow> spaced d xs"
  by (cases xs) simp_all

lemma spaced_nth: "spaced d xs \<Longrightarrow> i < j \<Longrightarrow> j < length xs \<Longrightarrow> xs ! i + d \<le> xs ! j"
proof (induction xs arbitrary: i j)
  case Nil
  then show ?case by simp
next
  case (Cons a xs)
  show ?case
  proof (cases i)
    case 0
    with Cons.prems obtain j' where j: "j = Suc j'" "j' < length xs"
      by (cases j) auto
    then have "xs ! j' \<in> set xs" by simp
    with Cons.prems(1) have "a + d \<le> xs ! j'" by (rule spaced_Cons_all)
    with 0 j show ?thesis by simp
  next
    case (Suc i')
    with Cons.prems obtain j' where j: "j = Suc j'" "i' < j'" "j' < length xs"
      by (cases j) auto
    from Cons.prems(1) have "spaced d xs" by (rule spaced_tail)
    then have "xs ! i' + d \<le> xs ! j'" using j(2,3) by (rule Cons.IH)
    with Suc j show ?thesis by simp
  qed
qed

lemma fires_cong: "network w' = network w \<Longrightarrow> fires w' = fires w"
  by (simp add: fires_def)

lemma fires_update:
  "fires (w\<lparr>throttled := th\<rparr>) = fires w"
  "fires (w\<lparr>clock := c\<rparr>) = fires w"
  "fires (w\<lparr>draft := q\<rparr>) = fires w"
  "fires (w\<lparr>settled := s\<rparr>) = fires w"
  by (simp_all add: fires_def)

lemma fires_searchSuggestions: "fires (searchSuggestions a w) = fires w @ [clock w]"
  by (simp add: fires_def searchSuggestions_def ajax_def)

lemma throttle_call_inv:
  assumes "throttle_inv w"
  shows "throttle_inv (throttle_call searchSuggestions 500 a w)"
proof (cases "previous (throttled w)")
  case None
  with assms show ?thesis
    by (simp add: throttle_inv_def throttle_call_def fires_searchSuggestions
        searchSuggestions_fields fires_update)
next
  case (Some p)
  show ?thesis
  proof (cases "p + 500 \<le> clock w")
    case True
    with Some assms show ?thesis
      by (simp add: throttle_inv_def throttle_call_def fires_searchSuggestions
          searchSuggestions_fields spaced_snoc fires_update)
  next
    case False
    with Some assms show ?thesis
      by (auto simp add: throttle_inv_def throttle_call_def fires_update split: option.splits)
  qed
qed

lemma throttle_later_inv:
  assumes "throttle_inv w" and "trailing (throttled w) = Some (due, a)" and "due \<le> clock w"
  shows "throttle_inv (throttle_later searchSuggestions w)"
  using assms
  by (auto simp add: throttle_inv_def throttle_later_def fires_searchSuggestions
      searchSuggestions_fields spaced_snoc fires_update split: option.splits)

lemma suggest_done_frame:
  "network (snd (snd (suggest_done response w))) = network w"
  "throttled (snd (snd (suggest_done response w))) = throttled w"
  "clock (snd (snd (suggest_done response w))) = clock w"
  by (simp_all add: suggest_done_def Let_def setSuggestions_def dispatch_fields console_log_fields
      split: sum.split prod.split option.split)

lemma deliver_frame:
  "network (deliver cb r w) = network w"
  "throttled (deliver cb r w) = throttled w"
  "clock (deliver cb r w) = clock w"
  by (cases cb; cases r;
      simp add: suggest_done_frame suggest_fail_def submit_done_def submit_fail_def
        dispatch_fields console_log_fields)+

lemma throttle_inv_cong:
  assumes "fires w' = fires w" and "throttled w' = throttled w" and "clock w' = clock w"
  shows "throttle_inv w' = throttle_inv w"
  unfolding throttle_inv_def assms by (rule refl)

lemma fires_dispatch: "fires (dispatch e w) = fires w"
  by (rule fires_cong) (simp add: dispatch_fields)

lemma fires_deliver: "fires (deliver cb r w) = fires w"
  by (rule fires_cong) (simp add: deliver_frame)

lemma dispatch_inv: "throttle_inv (dispatch e w) = throttle_inv w"
  by (rule throttle_inv_cong) (simp_all add: dispatch_fields fires_dispatch)

lemma step_inv:
  assumes "throttle_inv w" and "step t w = Some w'"
  shows "throttle_inv w'"
proof (cases t)
  case (Wait n)
  with assms show ?thesis
    by (auto simp add: throttle_inv_def fires_update split: option.splits)
next
  case (StoreChange q)
  have "throttle_inv (w\<lparr>draft := q\<rparr>) = throttle_inv w"
    by (rule throttle_inv_cong) (simp_all add: fires_update)
  with assms StoreChange show ?thesis by auto
next
  case (SetProduct x)
  with assms show ?thesis
    by (auto simp add: setProduct_def dispatch_inv)
next
  case (SetTopic x)
  with assms show ?thesis
    by (auto simp add: setTopic_def dispatch_inv)
next
  case (SetTitle a)
  have "throttle_inv (dispatch \<lparr>etype = SET_TITLE, payload = [(''title'', a)]\<rparr> w)"
    using assms(1) by (simp add: dispatch_inv)
  then have "throttle_inv (setTitle a w)"
    unfolding setTitle_def searchSuggestions_throttled_def by (rule throttle_call_inv)
  with assms(2) SetTitle show ?thesis by auto
next
  case (SetSuggestions x)
  with assms show ?thesis
    by (auto simp add: setSuggestions_def dispatch_inv)
next
  case (SetContent x)
  with assms show ?thesis
    by (auto simp add: setContent_def dispatch_inv)
next
  case SubmitQuestion
  have "throttle_inv (snd (submitQuestion w)) = throttle_inv w"
    by (rule throttle_inv_cong)
      (simp_all add: submitQuestion_def Let_def fires_def dispatch_fields ajax_fields
        split: option.split)
  with assms SubmitQuestion show ?thesis
    by auto
next
  case TimerFires
  with assms(2) obtain due a where "trailing (throttled w) = Some (due, a)" "due \<le> clock w"
    and "w' = throttle_later searchSuggestions w"
    by (auto split: option.splits if_splits)
  with assms(1) show ?thesis
    by (simp add: throttle_later_inv)
next
  case (Respond i r)
  with assms(2) have "w' = deliver (chained (network w ! i)) r (w\<lparr>settled := i # settled w\<rparr>)"
    by (auto split: if_splits)
  moreover have "throttle_inv (deliver (chained (network w ! i)) r (w\<lparr>settled := i # settled w\<rparr>)) =
      throttle_inv (w\<lparr>settled := i # settled w\<rparr>)"
    by (rule throttle_inv_cong) (simp_all add: deliver_frame fires_deliver)
  moreover have "throttle_inv (w\<lparr>settled := i # settled w\<rparr>) = throttle_inv w"
    by (rule throttle_inv_cong) (simp_all add: fires_update)
  ultimately show ?thesis
    using assms(1) by simp
qed

lemma run_inv: "throttle_inv w \<Longrightarrow> run ts w = Some w' \<Longrightarrow> throttle_inv w'"
proof (induction ts arbitrary: w)
  case Nil
  then show ?case by simp
next
  case (Cons t ts)
  from Cons.prems(2) obtain v where v: "step t w = Some v" "run ts v = Some w'"
    by (auto split: option.splits)
  from Cons.prems(1) v(1) have "throttle_inv v" by (rule step_inv)
  then show ?case using v(2) by (rule Cons.IH)
qed

lemma page_inv: "throttle_inv (page q csrf)"
  by (simp add: throttle_inv_def page_def fires_def)

lemma setTitle_dispatched:
  "dispatched (setTitle title w) =
     dispatched w @ [\<lparr>etype = SET_TITLE, payload = [(''title'', title)]\<rparr>]"
  by (simp add: setTitle_def searchSuggestions_throttled_def throttle_call_def
      searchSuggestions_fields dispatch_fields split: option.split)

lemma setTitle_first:
  assumes "previous (throttled w) = None \<or> (\<exists>p. previous (throttled w) = Some p \<and> p + 500 \<le> clock w)"
  shows "network (setTitle title w) =
           network w @
             [\<lparr>sent_at = clock w, ajax_type = ''GET'', url = ''/api/2/search/suggest'',
               data = [(''q'', title), (''max_questions'', JNum (safe 2)), (''max_documents'', JNum (safe 2)),
                       (''product'', own (getQuestion w) ''product'')],
               headers = [], chained = SuggestCallbacks\<rparr>]"
    and "throttled (setTitle title w) = \<lparr>previous = Some (clock w), trailing = None\<rparr>"
  using assms
  by (auto simp add: setTitle_def searchSuggestions_throttled_def throttle_call_def
      searchSuggestions_def ajax_def dispatch_def getQuestion_def)

lemma setTitle_within:
  assumes "previous (throttled w) = Some p \<and> clock w < p + 500"
  shows "network (setTitle title w) = network w"
    and "throttled (setTitle title w) =
           \<lparr>previous = Some p,
            trailing = Some (case trailing (throttled w) of None \<Rightarrow> p + 500 | Some (due, b) \<Rightarrow> due,
                             title)\<rparr>"
  using assms
  by (auto simp add: setTitle_def searchSuggestions_throttled_def throttle_call_def
      dispatch_def split: option.split)

lemma throttle_later_runs:
  assumes "trailing (throttled w) = Some (due, a)"
  shows "network (throttle_later searchSuggestions w) =
           network w @
             [\<lparr>sent_at = clock w, ajax_type = ''GET'', url = ''/api/2/search/suggest'',
               data = [(''q'', a), (''max_questions'', JNum (safe 2)), (''max_documents'', JNum (safe 2)),
                       (''product'', own (getQuestion w) ''product'')],
               headers = [], chained = SuggestCallbacks\<rparr>]"
    and "throttled (throttle_later searchSuggestions w) =
           \<lparr>previous = Some (clock w), trailing = None\<rparr>"
  using assms
  by (simp_all add: throttle_later_def searchSuggestions_def ajax_def getQuestion_def)

lemma timer_enabled:
  "step TimerFires w \<noteq> None \<longleftrightarrow> (\<exists>due a. trailing (throttled w) = Some (due, a) \<and> due \<le> clock w)"
  by (auto split: option.splits)

lemma run_spaced:
  assumes "run ts (page q csrf) = Some w'"
  shows "\<forall>i j. i < j \<and> j < length (fires w') \<longrightarrow> fires w' ! i + 500 \<le> fires w' ! j"
proof -
  have "throttle_inv w'"
    using page_inv assms by (rule run_inv)
  then have "spaced 500 (fires w')"
    by (simp add: throttle_inv_def)
  then show ?thesis
    by (blast intro: spaced_nth)
qed

text \<open>
  C3. Every call of \<open>setTitle\<close> hands the dispatcher one \<open>SET_TITLE\<close> event with the title,
  during the call. The suggestion search behind it is throttled with a window of 500 ms:
  a call when no search has run yet, or at least 500 ms after the last run, sends the
  request at once; a call within 500 ms of the last run sends nothing, keeps the timer
  that is pending (or sets one for the end of the window) and replaces the remembered
  argument by its own; the timer's callback sends one request with the remembered
  argument and clears the timer, and it cannot run before it is due. Hence, whatever
  happens to a freshly loaded page, any two suggestion requests are at least 500 ms apart.
\<close>

theorem setTitle_throttled:
  "dispatched (setTitle title w) =
     dispatched w @ [\<lparr>etype = SET_TITLE, payload = [(''title'', title)]\<rparr>]
   \<and> (previous (throttled w) = None \<or> (\<exists>p. previous (throttled w) = Some p \<and> p + 500 \<le> clock w) \<longrightarrow>
        network (setTitle title w) =
          network w @
            [\<lparr>sent_at = clock w, ajax_type = ''GET'', url = ''/api/2/search/suggest'',
              data = [(''q'', title), (''max_questions'', JNum (safe 2)), (''max_documents'', JNum (safe 2)),
                      (''product'', own (getQuestion w) ''product'')],
              headers = [], chained = SuggestCallbacks\<rparr>]
        \<and> throttled (setTitle title w) = \<lparr>previous = Some (clock w), trailing = None\<rparr>)
   \<and> (previous (throttled w) = Some p \<and> clock w < p + 500 \<longrightarrow>
        network (setTitle title w) = network w
        \<and> throttled (setTitle title w) =
            \<lparr>previous = Some p,
             trailing = Some (case trailing (throttled w) of None \<Rightarrow> p + 500 | Some (due, b) \<Rightarrow> due,
                              title)\<rparr>)
   \<and> (trailing (throttled w) = Some (due, a) \<longrightarrow>
        network (throttle_later searchSuggestions w) =
          network w @
            [\<lparr>sent_at = clock w, ajax_type = ''GET'', url = ''/api/2/search/suggest'',
              data = [(''q'', a), (''max_questions'', JNum (safe 2)), (''max_documents'', JNum (safe 2)),
                      (''product'', own (getQuestion w) ''product'')],
              headers = [], chained = SuggestCallbacks\<rparr>]
        \<and> throttled (throttle_later searchSuggestions w) =
            \<lparr>previous = Some (clock w), trailing = None\<rparr>)
   \<and> (step TimerFires w \<noteq> None \<longleftrightarrow>
        (\<exists>due a. trailing (throttled w) = Some (due, a) \<and> due \<le> clock w))
   \<and> (run ts (page q csrf) = Some w' \<longrightarrow>
        (\<forall>i j. i < j \<and> j < length (fires w') \<longrightarrow> fires w' ! i + 500 \<le> fires w' ! j))"
  using setTitle_dispatched setTitle_first setTitle_within throttle_later_runs timer_enabled
    run_spaced
  by (intro conjI impI) blast+

lemmas throttle_eval =
  page_def setTitle_def searchSuggestions_throttled_def throttle_call_def throttle_later_def
  searchSuggestions_def ajax_def dispatch_def getQuestion_def own_def

text \<open>
  C4, as amended. With the draft \<open>{product: "firefox", title: "t"}\<close> on a fresh page and
  \<open>setTitle("t")\<close> called three times within 100 ms, exactly one GET with \<open>q = "t"\<close> and
  \<open>product = "firefox"\<close> is sent during the burst, by the first call; the other two calls
  leave one trailing call pending, due 500 ms after the first. The timer cannot run
  before that; when it runs, it sends exactly one more GET with \<open>q = "t"\<close>: two in all.
\<close>

theorem title_burst_fires_leading_and_trailing:
  assumes "d1 + d2 \<le> 100"
  shows
    "map_option network
       (run [SetTitle (JStr ''t''), Wait d1, SetTitle (JStr ''t''), Wait d2, SetTitle (JStr ''t'')]
          (page [(''product'', JStr ''firefox''), (''title'', JStr ''t'')] csrf)) =
       Some [\<lparr>sent_at = 0, ajax_type = ''GET'', url = ''/api/2/search/suggest'',
               data = [(''q'', JStr ''t''), (''max_questions'', JNum (safe 2)), (''max_documents'', JNum (safe 2)),
                       (''product'', JStr ''firefox'')],
               headers = [], chained = SuggestCallbacks\<rparr>]
     \<and> map_option throttled
       (run [SetTitle (JStr ''t''), Wait d1, SetTitle (JStr ''t''), Wait d2, SetTitle (JStr ''t'')]
          (page [(''product'', JStr ''firefox''), (''title'', JStr ''t'')] csrf)) =
       Some \<lparr>previous = Some 0, trailing = Some (500, JStr ''t'')\<rparr>
     \<and> (500 \<le> d1 + d2 + d3 \<longrightarrow>
          map_option network
            (run [SetTitle (JStr ''t''), Wait d1, SetTitle (JStr ''t''), Wait d2,
                  SetTitle (JStr ''t''), Wait d3, TimerFires]
               (page [(''product'', JStr ''firefox''), (''title'', JStr ''t'')] csrf)) =
            Some [\<lparr>sent_at = 0, ajax_type = ''GET'', url = ''/api/2/search/suggest'',
                    data = [(''q'', JStr ''t''), (''max_questions'', JNum (safe 2)),
                            (''max_documents'', JNum (safe 2)), (''product'', JStr ''firefox'')],
                    headers = [], chained = SuggestCallbacks\<rparr>,
                  \<lparr>sent_at = d1 + d2 + d3, ajax_type = ''GET'', url = ''/api/2/search/suggest'',
                    data = [(''q'', JStr ''t''), (''max_questions'', JNum (safe 2)),
                            (''max_documents'', JNum (safe 2)), (''product'', JStr ''firefox'')],
                    headers = [], chained = SuggestCallbacks\<rparr>])
     \<and> (d1 + d2 + d3 < 500 \<longrightarrow>
          run [SetTitle (JStr ''t''), Wait d1, SetTitle (JStr ''t''), Wait d2,
               SetTitle (JStr ''t''), Wait d3, TimerFires]
            (page [(''product'', JStr ''firefox''), (''title'', JStr ''t'')] csrf) = None)"
  using assms by (simp add: throttle_eval)

text \<open>
  C4 as stated fails: with calls at 0, 50 and 99 ms and the timer run when it is due, two
  GET requests with \<open>q = "t"\<close> are sent, at 0 and at 500 ms.
\<close>

theorem three_title_changes_fire_two_requests:
  "map_option network
     (run [SetTitle (JStr ''t''), Wait 50, SetTitle (JStr ''t''), Wait 49, SetTitle (JStr ''t''),
           Wait 401, TimerFires]
        (page [(''product'', JStr ''firefox''), (''title'', JStr ''t'')] None)) =
     Some [\<lparr>sent_at = 0, ajax_type = ''GET'', url = ''/api/2/search/suggest'',
             data = [(''q'', JStr ''t''), (''max_questions'', JNum (safe 2)), (''max_documents'', JNum (safe 2)),
                     (''product'', JStr ''firefox'')],
             headers = [], chained = SuggestCallbacks\<rparr>,
           \<lparr>sent_at = 500, ajax_type = ''GET'', url = ''/api/2/search/suggest'',
             data = [(''q'', JStr ''t''), (''max_questions'', JNum (safe 2)), (''max_documents'', JNum (safe 2)),
                     (''product'', JStr ''firefox'')],
             headers = [], chained = SuggestCallbacks\<rparr>]"
  by (simp add: throttle_eval)

text \<open>
  A fresh page: the title \<open>a\<close> at time 0 is searched at once, the title \<open>ab\<close> 100 ms later
  is held back, and the timer, run at 700 ms, searches for \<open>ab\<close>.
\<close>

theorem setTitle_throttled_witness:
  "network (setTitle (JStr ''a'') (page [(''product'', JStr ''firefox'')] None)) =
     network (page [(''product'', JStr ''firefox'')] None) @
       [\<lparr>sent_at = clock (page [(''product'', JStr ''firefox'')] None), ajax_type = ''GET'',
         url = ''/api/2/search/suggest'',
         data = [(''q'', JStr ''a''), (''max_questions'', JNum (safe 2)), (''max_documents'', JNum (safe 2)),
                 (''product'', own (getQuestion (page [(''product'', JStr ''firefox'')] None)) ''product'')],
         headers = [], chained = SuggestCallbacks\<rparr>]
   \<and> network (setTitle (JStr ''ab'') (setTitle (JStr ''a'') (page [(''product'', JStr ''firefox'')] None))) =
       network (setTitle (JStr ''a'') (page [(''product'', JStr ''firefox'')] None))
   \<and> throttled (setTitle (JStr ''ab'') (setTitle (JStr ''a'') (page [(''product'', JStr ''firefox'')] None))) =
       \<lparr>previous = Some 0, trailing = Some (500, JStr ''ab'')\<rparr>
   \<and> map (\<lambda>r. (sent_at r, map_of (data r) ''q''))
       (network (throttle_later searchSuggestions
          ((setTitle (JStr ''ab'') (setTitle (JStr ''a'') (page [(''product'', JStr ''firefox'')] None)))
             \<lparr>clock := 700\<rparr>))) =
       [(0, Some (JStr ''a'')), (700, Some (JStr ''ab''))]
   \<and> fires (the (run [SetTitle (JStr ''a''), Wait 100, SetTitle (JStr ''ab''), Wait 600, TimerFires]
                     (page [(''product'', JStr ''firefox'')] None))) = [0, 700]
   \<and> fires (the (run [SetTitle (JStr ''a''), Wait 100, SetTitle (JStr ''ab''), Wait 600, TimerFires]
                     (page [(''product'', JStr ''firefox'')] None))) ! 0 + 500
       \<le> fires (the (run [SetTitle (JStr ''a''), Wait 100, SetTitle (JStr ''ab''), Wait 600, TimerFires]
                     (page [(''product'', JStr ''firefox'')] None))) ! 1"
proof -
  let ?p = "page [(''product'', JStr ''firefox'')] None"
  let ?p1 = "setTitle (JStr ''a'') ?p"
  let ?p2 = "(setTitle (JStr ''ab'') ?p1)\<lparr>clock := 700\<rparr>"
  let ?ts = "[SetTitle (JStr ''a''), Wait 100, SetTitle (JStr ''ab''), Wait 600, TimerFires]"
  have h1: "previous (throttled ?p) = None \<or> (\<exists>p. previous (throttled ?p) = Some p \<and> p + 500 \<le> clock ?p)"
    by (simp add: page_def)
  note c1 = setTitle_throttled [where w = ?p and title = "JStr ''a''",
      THEN conjunct2, THEN conjunct1, THEN mp, OF h1, THEN conjunct1]
  have h2: "previous (throttled ?p1) = Some 0 \<and> clock ?p1 < 0 + 500"
    by (simp add: throttle_eval)
  note c2 = setTitle_throttled [where w = ?p1 and title = "JStr ''ab''" and p = 0,
      THEN conjunct2, THEN conjunct2, THEN conjunct1, THEN mp, OF h2]
  have t1: "trailing (throttled ?p1) = None"
    by (simp add: throttle_eval)
  have c2': "throttled (setTitle (JStr ''ab'') ?p1) = \<lparr>previous = Some 0, trailing = Some (500, JStr ''ab'')\<rparr>"
    using c2 [THEN conjunct2] by (simp add: t1)
  have h3: "trailing (throttled ?p2) = Some (500, JStr ''ab'')"
    by (simp add: c2')
  note c3 = setTitle_throttled [where w = ?p2 and due = 500 and a = "JStr ''ab''",
      THEN conjunct2, THEN conjunct2, THEN conjunct2, THEN conjunct1, THEN mp, OF h3, THEN conjunct1]
  have n2: "network ?p2 = network ?p @
       [\<lparr>sent_at = 0, ajax_type = ''GET'', url = ''/api/2/search/suggest'',
         data = [(''q'', JStr ''a''), (''max_questions'', JNum (safe 2)), (''max_documents'', JNum (safe 2)),
                 (''product'', JStr ''firefox'')],
         headers = [], chained = SuggestCallbacks\<rparr>]"
    using c1 c2 [THEN conjunct1] by (simp add: page_def getQuestion_def own_def)
  have c3': "map (\<lambda>r. (sent_at r, map_of (data r) ''q'')) (network (throttle_later searchSuggestions ?p2)) =
       [(0, Some (JStr ''a'')), (700, Some (JStr ''ab''))]"
    unfolding c3 n2 by (simp add: page_def)
  have r: "run ?ts ?p = Some (the (run ?ts ?p))"
    by (simp add: throttle_eval)
  have f: "fires (the (run ?ts ?p)) = [0, 700]"
    by (simp add: throttle_eval fires_def)
  note c5 = setTitle_throttled [where ts = ?ts and q = "[(''product'', JStr ''firefox'')]"
      and csrf = None and w' = "the (run ?ts ?p)",
      THEN conjunct2, THEN conjunct2, THEN conjunct2, THEN conjunct2, THEN conjunct2,
      THEN mp, OF r, rule_format, of 0 1]
  have c5': "fires (the (run ?ts ?p)) ! 0 + 500 \<le> fires (the (run ?ts ?p)) ! 1"
  proof -
    have "0 < (1::nat) \<and> 1 < length (fires (the (run ?ts ?p)))"
      unfolding f by simp
    then show ?thesis
      by (rule c5)
  qed
  show ?thesis
    using c1 c2 [THEN conjunct1] c2' c3' f c5' by (intro conjI)
qed

text \<open>Calls at 0, 50 and 99 ms; the timer run at 550 ms, and refused at 499 ms.\<close>

theorem title_burst_fires_leading_and_trailing_witness:
  "(50::nat) + 49 \<le> 100
   \<and> map_option network
       (run [SetTitle (JStr ''t''), Wait 50, SetTitle (JStr ''t''), Wait 49, SetTitle (JStr ''t'')]
          (page [(''product'', JStr ''firefox''), (''title'', JStr ''t'')] None)) =
       Some [\<lparr>sent_at = 0, ajax_type = ''GET'', url = ''/api/2/search/suggest'',
               data = [(''q'', JStr ''t''), (''max_questions'', JNum (safe 2)), (''max_documents'', JNum (safe 2)),
                       (''product'', JStr ''firefox'')],
               headers = [], chained = SuggestCallbacks\<rparr>]
   \<and> map_option network
       (run [SetTitle (JStr ''t''), Wait 50, SetTitle (JStr ''t''), Wait 49,
             SetTitle (JStr ''t''), Wait 451, TimerFires]
          (page [(''product'', JStr ''firefox''), (''title'', JStr ''t'')] None)) =
       Some [\<lparr>sent_at = 0, ajax_type = ''GET'', url = ''/api/2/search/suggest'',
               data = [(''q'', JStr ''t''), (''max_questions'', JNum (safe 2)),
                       (''max_documents'', JNum (safe 2)), (''product'', JStr ''firefox'')],
               headers = [], chained = SuggestCallbacks\<rparr>,
             \<lparr>sent_at = 50 + 49 + 451, ajax_type = ''GET'', url = ''/api/2/search/suggest'',
               data = [(''q'', JStr ''t''), (''max_questions'', JNum (safe 2)),
                       (''max_documents'', JNum (safe 2)), (''product'', JStr ''firefox'')],
               headers = [], chained = SuggestCallbacks\<rparr>]
   \<and> run [SetTitle (JStr ''t''), Wait 50, SetTitle (JStr ''t''), Wait 49,
          SetTitle (JStr ''t''), Wait 400, TimerFires]
       (page [(''product'', JStr ''firefox''), (''title'', JStr ''t'')] None) = None"
proof -
  have h: "(50::nat) + 49 \<le> 100"
    by simp
  have a: "(500::nat) \<le> 50 + 49 + 451" and b: "(50::nat) + 49 + 400 < 500"
    by simp_all
  note t = title_burst_fires_leading_and_trailing [OF h, where csrf = None]
  show ?thesis
    using h t [THEN conjunct1]
      t [where ?d3.0 = 451, THEN conjunct2, THEN conjunct2, THEN conjunct1, THEN mp, OF a]
      t [where ?d3.0 = 400, THEN conjunct2, THEN conjunct2, THEN conjunct2, THEN mp, OF b]
    by (intro conjI)
qed

end
